theory Spec2Isabelle
  imports Main "HOL-Library.Word"
begin

unbundle bit_operations_syntax

section \<open>The explicit-free-list allocator of memoryAllocator.c\<close>

text \<open>
  The allocator is modelled on an LP64 platform: \<open>size_t\<close>, \<open>unsigned long\<close> and every
  pointer are 64-bit words, so \<open>sizeof(blockHeader) = sizeof(blockFooter) = 8\<close> and
  \<open>sizeof(eflNode) = 16\<close>. All arithmetic wraps around modulo \<open>2 ^ 64\<close>, as it does in C
  on \<open>size_t\<close>.

  Memory is an explicit store from byte addresses to the 64-bit word stored there.
  Every access of the allocator is a \<open>size_t\<close>- or pointer-sized access at
  \<open>region base + 8 * k\<close>, so a word-granular store indexed by the byte address of the word
  is enough. The null pointer is the address \<open>0\<close>.

  The store is total: it has no notion of a mapped address, and an access outside every
  mapped region, where the program is stopped by the operating system, reads and writes
  the store like any other. A statement about a run therefore speaks about the program
  only where every access of the run lies inside a mapped region. This is the case for
  the runs below. It is not the case for a request of \<open>2^64 - 15\<close> bytes or more:
  \<open>mm_malloc\<close> then searches for 16 bytes and calls \<open>setAllocated\<close> with this size, the
  footer of a block of 16 bytes is the \<open>prev\<close> link of its node, and \<open>removeEFLNode\<close> stores
  through the tag that was written there, at the address \<open>0x19\<close>. No statement below is
  about such a run.
\<close>

type_synonym addr = "64 word"
type_synonym memory = "addr \<Rightarrow> 64 word"

subsection \<open>Macros\<close>

definition ALIGNMENT :: "64 word" where
  "ALIGNMENT = 16"

definition ALIGN :: "64 word \<Rightarrow> 64 word" where
  "ALIGN sz = (sz + (ALIGNMENT - 1)) AND NOT (ALIGNMENT - 1)"

definition PAGEALIGN :: "64 word \<Rightarrow> 64 word \<Rightarrow> 64 word" where
  "PAGEALIGN pagesize sz = (sz + (pagesize - 1)) AND NOT (pagesize - 1)"

definition OVERHEAD :: "64 word" where
  "OVERHEAD = 8 + 8"

definition MINSIZE :: "64 word" where
  "MINSIZE = 16"

definition PAGEOVERHEAD :: "64 word" where
  "PAGEOVERHEAD = (2 * 8) + (2 * 8)"

definition PAGERATIO :: "64 word" where
  "PAGERATIO = 10"

definition GET :: "memory \<Rightarrow> addr \<Rightarrow> 64 word" where
  "GET m p = m p"

definition PUT :: "memory \<Rightarrow> addr \<Rightarrow> 64 word \<Rightarrow> memory" where
  "PUT m p val = m(p := val)"

definition PACK :: "64 word \<Rightarrow> 64 word \<Rightarrow> 64 word" where
  "PACK sz alloc = sz OR alloc"

definition GET_ALLOC :: "memory \<Rightarrow> addr \<Rightarrow> 64 word" where
  "GET_ALLOC m p = GET m p AND 1"

definition GET_SIZE :: "memory \<Rightarrow> addr \<Rightarrow> 64 word" where
  "GET_SIZE m p = GET m p AND NOT 15"

definition HDRP :: "addr \<Rightarrow> addr" where
  "HDRP bp = bp - 8"

definition FTRP :: "memory \<Rightarrow> addr \<Rightarrow> addr" where
  "FTRP m bp = bp + GET_SIZE m (HDRP bp) - OVERHEAD"

definition NEXT_BLKP :: "memory \<Rightarrow> addr \<Rightarrow> addr" where
  "NEXT_BLKP m bp = bp + GET_SIZE m (HDRP bp)"

definition PREV_BLKP :: "memory \<Rightarrow> addr \<Rightarrow> addr" where
  "PREV_BLKP m bp = bp - GET_SIZE m (bp - OVERHEAD)"

text \<open>The two fields of \<open>struct eflNode\<close>: \<open>prev\<close> at offset 0, \<open>next\<close> at offset 8.\<close>

definition node_prev :: "memory \<Rightarrow> addr \<Rightarrow> addr" where
  "node_prev m n = GET m n"

definition node_next :: "memory \<Rightarrow> addr \<Rightarrow> addr" where
  "node_next m n = GET m (n + 8)"

definition set_prev :: "memory \<Rightarrow> addr \<Rightarrow> addr \<Rightarrow> memory" where
  "set_prev m n v = PUT m n v"

definition set_next :: "memory \<Rightarrow> addr \<Rightarrow> addr \<Rightarrow> memory" where
  "set_next m n v = PUT m (n + 8) v"

subsection \<open>The page provider and the allocator state\<close>

text \<open>
  Modelled from the spec: the page provider (\<open>memlib.h\<close>: \<open>mem_pagesize\<close>, \<open>mem_map\<close>,
  \<open>mem_unmap\<close>) is not part of the sources. It is a parameter of the model: a page size,
  a \<open>map\<close> operation that returns the base of a region or the null pointer and a new
  provider state, and an \<open>unmap\<close> operation on the provider state. The contents of a
  freshly mapped region are left unconstrained, which covers the zero-filled regions of
  the spec.
\<close>

record 'p provider =
  mem_pagesize :: "64 word"
  mem_map :: "64 word \<Rightarrow> 'p \<Rightarrow> addr \<times> 'p"
  mem_unmap :: "addr \<Rightarrow> 64 word \<Rightarrow> 'p \<Rightarrow> 'p"

text \<open>The globals \<open>basePage\<close> and \<open>nextFree\<close>, the memory, and the provider's state.\<close>

record 'p allocator =
  mem :: memory
  nextFree :: addr
  basePage :: addr
  prov :: 'p

text \<open>
  The state of the provider used for concrete runs (see the end of the theory): the
  region bases it will still hand out, and the calls it has served.
\<close>

record script =
  answers :: "addr list"
  mapped :: "(addr \<times> 64 word) list"
  unmapped :: "(addr \<times> 64 word) list"

subsection \<open>The free list\<close>

definition addEFLNode :: "addr \<Rightarrow> 'p allocator \<Rightarrow> 'p allocator" where
  "addEFLNode newFree s =
     (if nextFree s \<noteq> 0 then
        let m1 = set_prev (mem s) newFree 0;
            m2 = set_next m1 newFree (nextFree s);
            m3 = set_prev m2 (nextFree s) newFree
        in s\<lparr>mem := m3, nextFree := newFree\<rparr>
      else
        let m1 = set_next (mem s) newFree 0;
            m2 = set_prev m1 newFree 0
        in s\<lparr>mem := m2, nextFree := newFree\<rparr>)"

definition removeEFLNode :: "addr \<Rightarrow> 'p allocator \<Rightarrow> 'p allocator" where
  "removeEFLNode oldFree s =
     (let m = mem s in
      if node_prev m oldFree \<noteq> 0 \<and> node_next m oldFree \<noteq> 0 then
        let m1 = set_next m (node_prev m oldFree) (node_next m oldFree);
            m2 = set_prev m1 (node_next m1 oldFree) (node_prev m1 oldFree)
        in s\<lparr>mem := m2\<rparr>
      else if node_prev m oldFree \<noteq> 0 then
        s\<lparr>mem := set_next m (node_prev m oldFree) 0\<rparr>
      else if node_next m oldFree \<noteq> 0 then
        let nf = node_next m oldFree
        in s\<lparr>mem := set_prev m nf 0, nextFree := nf\<rparr>
      else
        s\<lparr>nextFree := 0\<rparr>)"

subsection \<open>extend\<close>

text \<open>The number of bytes \<open>extend\<close> asks the provider for (the first three lines of its body).\<close>

definition extend_bytes :: "64 word \<Rightarrow> 64 word \<Rightarrow> 64 word" where
  "extend_bytes pagesize sz =
     (if sz mod pagesize \<noteq> 0 then PAGEALIGN pagesize sz else sz) * PAGERATIO"

text \<open>The initialisation of a mapped region (the writes of \<open>extend\<close> before \<open>addEFLNode\<close>).\<close>

definition init_page :: "addr \<Rightarrow> 64 word \<Rightarrow> memory \<Rightarrow> memory" where
  "init_page pageAdr sz m =
     (let m1 = PUT m (pageAdr + ALIGNMENT div 2) (PACK OVERHEAD 1);
          m2 = PUT m1 (pageAdr + ALIGNMENT div 2 + 8) (PACK OVERHEAD 1);
          m3 = PUT m2 (pageAdr + sz - 8) (PACK 0 1);
          m4 = PUT m3 (pageAdr + ALIGNMENT div 2 + OVERHEAD) (PACK (sz - PAGEOVERHEAD) 0);
          m5 = PUT m4 (FTRP m4 (pageAdr + OVERHEAD + 8)) (PACK (sz - PAGEOVERHEAD) 0)
      in m5)"

definition extend :: "'p provider \<Rightarrow> 64 word \<Rightarrow> 'p allocator \<Rightarrow> 'p allocator" where
  "extend P sz s =
     (let bytes = extend_bytes (mem_pagesize P) sz;
          (pageAdr, p') = mem_map P bytes (prov s)
      in if pageAdr = 0 then s\<lparr>prov := p'\<rparr>
         else
           let s1 = addEFLNode (pageAdr + PAGEOVERHEAD)
                      (s\<lparr>mem := init_page pageAdr bytes (mem s), prov := p'\<rparr>)
           in if basePage s1 = 0 then s1\<lparr>basePage := pageAdr\<rparr> else s1)"

subsection \<open>setAllocated and coalesce\<close>

definition setAllocated :: "addr \<Rightarrow> 64 word \<Rightarrow> 'p allocator \<Rightarrow> 'p allocator" where
  "setAllocated bp sz s =
     (let available = GET_SIZE (mem s) (HDRP bp) in
      if available - sz \<ge> PAGEOVERHEAD then
        let m1 = PUT (mem s) (HDRP bp) (PACK sz 1);
            m2 = PUT m1 (FTRP m1 bp) (PACK sz 1);
            s1 = removeEFLNode bp (s\<lparr>mem := m2\<rparr>);
            bp' = NEXT_BLKP (mem s1) bp;
            m3 = PUT (mem s1) (HDRP bp') (PACK (available - sz) 0);
            m4 = PUT m3 (FTRP m3 bp') (PACK (available - sz) 0)
        in addEFLNode bp' (s1\<lparr>mem := m4\<rparr>)
      else
        let m1 = PUT (mem s) (HDRP bp) (PACK available 1);
            m2 = PUT m1 (FTRP m1 bp) (PACK available 1)
        in removeEFLNode bp (s\<lparr>mem := m2\<rparr>))"

definition coalesce :: "addr \<Rightarrow> 'p allocator \<Rightarrow> addr \<times> 'p allocator" where
  "coalesce bp s =
     (let m = mem s;
          prevAlloc = GET_ALLOC m (FTRP m (PREV_BLKP m bp));
          nextAlloc = GET_ALLOC m (HDRP (NEXT_BLKP m bp));
          sz = GET_SIZE m (HDRP bp)
      in
      if prevAlloc \<noteq> 0 \<and> nextAlloc \<noteq> 0 then
        (bp, addEFLNode bp s)
      else if prevAlloc \<noteq> 0 \<and> nextAlloc = 0 then
        let sz' = sz + GET_SIZE m (HDRP (NEXT_BLKP m bp));
            s1 = removeEFLNode (NEXT_BLKP m bp) s;
            m1 = PUT (mem s1) (HDRP bp) (PACK sz' 0);
            m2 = PUT m1 (FTRP m1 bp) (PACK sz' 0)
        in (bp, addEFLNode bp (s1\<lparr>mem := m2\<rparr>))
      else if prevAlloc = 0 \<and> nextAlloc \<noteq> 0 then
        let sz' = sz + GET_SIZE m (HDRP (PREV_BLKP m bp));
            m1 = PUT m (FTRP m bp) (PACK sz' 0);
            m2 = PUT m1 (HDRP (PREV_BLKP m1 bp)) (PACK sz' 0)
        in (PREV_BLKP m2 bp, s\<lparr>mem := m2\<rparr>)
      else
        let sz' = sz + GET_SIZE m (HDRP (PREV_BLKP m bp)) + GET_SIZE m (HDRP (NEXT_BLKP m bp));
            s1 = removeEFLNode (NEXT_BLKP m bp) s;
            m1 = PUT (mem s1) (HDRP (PREV_BLKP (mem s1) bp)) (PACK sz' 0);
            m2 = PUT m1 (FTRP m1 (PREV_BLKP m1 bp)) (PACK sz' 0)
        in (PREV_BLKP m2 bp, s1\<lparr>mem := m2\<rparr>))"

subsection \<open>The public interface\<close>

definition mm_init :: "'p provider \<Rightarrow> 'p allocator \<Rightarrow> int \<times> 'p allocator" where
  "mm_init P s = (0, extend P (mem_pagesize P) (s\<lparr>nextFree := 0, basePage := 0\<rparr>))"

text \<open>
  The \<open>while\<close> loop of \<open>mm_malloc\<close>: the walk along the \<open>next\<close> links. It yields the first
  node whose block is large enough, or the null pointer at the end of the list. On a
  cyclic list without a fitting block the loop does not return, which is the value
  \<open>None\<close>.
\<close>

partial_function (option) first_fit :: "memory \<Rightarrow> addr \<Rightarrow> 64 word \<Rightarrow> addr option" where
  "first_fit m avail sizeAlign =
     (if avail \<noteq> 0 then
        if GET_SIZE m (HDRP avail) \<ge> sizeAlign then Some avail
        else first_fit m (node_next m avail) sizeAlign
      else Some 0)"

text \<open>The size \<open>mm_malloc\<close> searches for: the request raised to \<open>MINSIZE\<close>, plus the tags, aligned.\<close>

definition request_size :: "64 word \<Rightarrow> 64 word" where
  "request_size sz = ALIGN ((if sz \<le> MINSIZE then MINSIZE else sz) + OVERHEAD)"

text \<open>
  \<open>mm_malloc\<close> returns the payload pointer (null for a request of 0 bytes) and the new
  state. After an unsuccessful search it extends and calls itself again; \<open>None\<close> is the
  call that never returns.
\<close>

partial_function (option) mm_malloc ::
    "'p provider \<Rightarrow> 64 word \<Rightarrow> 'p allocator \<Rightarrow> (addr \<times> 'p allocator) option" where
  "mm_malloc P sz s =
     (if sz = 0 then Some (0, s)
      else
        case first_fit (mem s) (nextFree s) (request_size sz) of
          None \<Rightarrow> None
        | Some avail \<Rightarrow>
            if avail \<noteq> 0 then Some (avail, setAllocated avail (request_size sz) s)
            else mm_malloc P (if sz \<le> MINSIZE then MINSIZE else sz)
                   (extend P (request_size sz) s))"

text \<open>
  The first three statements of \<open>mm_free\<close>: the allocated bit is cleared in the header and
  in the footer of the block.
\<close>

definition mark_free :: "addr \<Rightarrow> 'p allocator \<Rightarrow> 'p allocator" where
  "mark_free bp s =
     (let sz = GET_SIZE (mem s) (HDRP bp);
          m1 = PUT (mem s) (HDRP bp) (PACK sz 0);
          m2 = PUT m1 (FTRP m1 bp) (PACK sz 0)
      in s\<lparr>mem := m2\<rparr>)"

definition mm_free :: "'p provider \<Rightarrow> addr \<Rightarrow> 'p allocator \<Rightarrow> 'p allocator" where
  "mm_free P bp s =
     (let (bp', s1) = coalesce bp (mark_free bp s);
          sz' = GET_SIZE (mem s1) (HDRP bp')
      in
      if GET_SIZE (mem s1) (HDRP (PREV_BLKP (mem s1) bp')) = OVERHEAD
         \<and> GET_SIZE (mem s1) (HDRP (NEXT_BLKP (mem s1) bp')) = 0 then
        let start = bp' - 2 * OVERHEAD in
        if start = basePage s1 then s1
        else
          let s2 = removeEFLNode bp' s1
          in s2\<lparr>prov := mem_unmap P start (sz' + PAGEOVERHEAD) (prov s2)\<rparr>
      else s1)"

subsection \<open>A provider for concrete runs\<close>

text \<open>
  A page provider with a fixed page size of 4096 bytes that answers the successive
  \<open>map\<close> calls from a list of region bases, refuses every call once the list is used up
  (and any call answered by a null base), and records every call.
\<close>

definition script_map :: "64 word \<Rightarrow> script \<Rightarrow> addr \<times> script" where
  "script_map bytes p =
     (case answers p of
        [] \<Rightarrow> (0, p)
      | a # as \<Rightarrow>
          (a, p\<lparr>answers := as,
                 mapped := (if a = 0 then mapped p else mapped p @ [(a, bytes)])\<rparr>))"

definition script_unmap :: "addr \<Rightarrow> 64 word \<Rightarrow> script \<Rightarrow> script" where
  "script_unmap a bytes p = p\<lparr>unmapped := unmapped p @ [(a, bytes)]\<rparr>"

definition script_provider :: "script provider" where
  "script_provider =
     \<lparr>mem_pagesize = 4096, mem_map = script_map, mem_unmap = script_unmap\<rparr>"

definition boot :: "addr list \<Rightarrow> script allocator" where
  "boot as =
     \<lparr>mem = (\<lambda>_. 0), nextFree = 0, basePage = 0,
      prov = \<lparr>answers = as, mapped = [], unmapped = []\<rparr>\<rparr>"

section \<open>Notions used in the statements\<close>

text \<open>A size or payload address is aligned when its low four bits are clear.\<close>

definition aligned :: "64 word \<Rightarrow> bool" where
  "aligned x = (x AND 15 = 0)"

text \<open>
  Following the spec's words: a byte count rounded up to a page multiple, on natural
  numbers (no wrap-around).
\<close>

definition page_aligned :: "nat \<Rightarrow> nat \<Rightarrow> nat" where
  "page_aligned pagesize n = ((n + pagesize - 1) div pagesize) * pagesize"

text \<open>
  Following the spec's words: \<open>align_up(n, a)\<close>, a byte count rounded up to a multiple of
  the alignment, on natural numbers (no wrap-around).
\<close>

definition align_up :: "nat \<Rightarrow> nat \<Rightarrow> nat" where
  "align_up n a = ((n + a - 1) div a) * a"

text \<open>
  The explicit free list as a list of nodes: \<open>efl m p h xs\<close> holds when the walk from \<open>h\<close>
  along the \<open>next\<close> links visits exactly the nodes \<open>xs\<close>, in this order, and ends at the
  null pointer, and every node's \<open>prev\<close> link is its predecessor in the walk (\<open>p\<close> for the
  first node).
\<close>

fun efl :: "memory \<Rightarrow> addr \<Rightarrow> addr \<Rightarrow> addr list \<Rightarrow> bool" where
  "efl m p h [] = (h = 0)"
| "efl m p h (x # xs) = (h = x \<and> x \<noteq> 0 \<and> node_prev m x = p \<and> efl m x (node_next m x) xs)"

text \<open>
  \<open>EFL s xs\<close>: in the state \<open>s\<close> the free list anchored at \<open>nextFree\<close> is the list \<open>xs\<close> (the
  head's \<open>prev\<close> link is null), and its nodes are aligned payload addresses.
\<close>

definition EFL :: "'p allocator \<Rightarrow> addr list \<Rightarrow> bool" where
  "EFL s xs = (efl (mem s) 0 (nextFree s) xs \<and> list_all aligned xs)"

text \<open>The memory cells that hold the links of the nodes \<open>xs\<close>.\<close>

definition links :: "addr list \<Rightarrow> addr set" where
  "links xs = set xs \<union> (\<lambda>x. x + 8) ` set xs"

text \<open>The memory that \<open>removeEFLNode\<close> leaves (used in the proofs about it).\<close>

definition unlink :: "memory \<Rightarrow> addr \<Rightarrow> memory" where
  "unlink m x =
     (let m1 = (if node_prev m x \<noteq> 0 then set_next m (node_prev m x) (node_next m x) else m)
      in if node_next m x \<noteq> 0 then set_prev m1 (node_next m x) (node_prev m x) else m1)"

text \<open>
  A cell lies in the block with payload \<open>bp\<close> and size \<open>sz\<close> when it lies between the
  header and the footer of the block, both included (the comparison is on the wrapped
  difference, so that it is the interval test wherever the block does not wrap around).
  \<open>clear_of bp sz xs\<close>: the links of every node of \<open>xs\<close> other than \<open>bp\<close> itself lie
  outside the block \<open>bp\<close>, that is, no other free block overlaps it.
\<close>

definition in_block :: "addr \<Rightarrow> 64 word \<Rightarrow> addr \<Rightarrow> bool" where
  "in_block bp sz a = (a - HDRP bp < sz)"

definition clear_of :: "addr \<Rightarrow> 64 word \<Rightarrow> addr list \<Rightarrow> bool" where
  "clear_of bp sz xs =
     list_all (\<lambda>x. x = bp \<or> (\<not> in_block bp sz x \<and> \<not> in_block bp sz (x + 8))) xs"

text \<open>
  \<open>in_range lo len a\<close>: the address \<open>a\<close> lies in the \<open>len\<close> bytes from \<open>lo\<close> on. \<open>cell lo k\<close> is
  the address \<open>k\<close> bytes after \<open>lo\<close>.
\<close>

definition in_range :: "addr \<Rightarrow> 64 word \<Rightarrow> addr \<Rightarrow> bool" where
  "in_range lo len a = (a - lo < len)"

definition cell :: "addr \<Rightarrow> nat \<Rightarrow> addr" where
  "cell lo k = lo + of_nat k"

text \<open>
  What \<open>coalesce\<close> may rely on when it is called on the block \<open>bp\<close>, in a heap that satisfies
  the invariants of the spec around that block. \<open>xs\<close> is the free list, \<open>szb\<close> the size of the
  block, \<open>szP\<close> and \<open>pa\<close> the size and the allocated bit in the footer of the predecessor
  \<open>P = bp - szP\<close>, \<open>szN\<close> and \<open>na\<close> those in the header of the successor \<open>N = bp + szb\<close>:
  \<^item> the free list is well formed and does not hold \<open>bp\<close>, which is an aligned, non-null
    payload address of a block of at least 32 bytes;
  \<^item> the header of \<open>P\<close> records the same size as its footer;
  \<^item> a neighbour is in the free list exactly when it is free, and then it has at least 32
    bytes and its own neighbour on the far side is allocated (no two adjacent free blocks);
  \<^item> the sizes do not wrap around;
  \<^item> the links of every free block other than \<open>P\<close> and \<open>N\<close> lie outside the stretch of
    memory from the footer before \<open>P\<close> to the header after \<open>N\<close> (blocks do not overlap).
\<close>

definition coalescible ::
  "'p allocator \<Rightarrow> addr \<Rightarrow> addr list \<Rightarrow> 64 word \<Rightarrow> 64 word \<Rightarrow> 64 word \<Rightarrow> 64 word \<Rightarrow> 64 word
     \<Rightarrow> bool" where
  "coalescible s bp xs szP szb szN pa na =
     (EFL s xs \<and> bp \<notin> set xs \<and> bp \<noteq> 0 \<and> aligned bp
      \<and> GET_SIZE (mem s) (HDRP bp) = szb \<and> 32 \<le> szb
      \<and> GET_SIZE (mem s) (bp - OVERHEAD) = szP \<and> GET_SIZE (mem s) (HDRP (bp - szP)) = szP
      \<and> GET_ALLOC (mem s) (bp - OVERHEAD) = pa
      \<and> GET_SIZE (mem s) (HDRP (bp + szb)) = szN \<and> GET_ALLOC (mem s) (HDRP (bp + szb)) = na
      \<and> (if pa = 0
          then bp - szP \<in> set xs \<and> 32 \<le> szP \<and> GET_ALLOC (mem s) (bp - szP - OVERHEAD) \<noteq> 0
          else bp - szP \<notin> set xs)
      \<and> (if na = 0
          then bp + szb \<in> set xs \<and> 32 \<le> szN \<and> GET_ALLOC (mem s) (HDRP (bp + szb + szN)) \<noteq> 0
          else bp + szb \<notin> set xs)
      \<and> unat szP + unat szb + unat szN + 16 < 2 ^ 64
      \<and> list_all (\<lambda>x. x = bp - szP \<or> x = bp + szb
             \<or> (\<not> in_range (bp - szP - OVERHEAD) (szP + szb + szN + OVERHEAD) x
                \<and> \<not> in_range (bp - szP - OVERHEAD) (szP + szb + szN + OVERHEAD) (x + 8))) xs)"

text \<open>The state after \<open>mm_init\<close> on zero-filled memory, with the region mapped at \<open>0x10000\<close>.\<close>

definition heap1 :: "script allocator" where
  "heap1 = snd (mm_init script_provider (boot [0x10000]))"

text \<open>
  A run in the primordial region: four requests of 100 bytes give the blocks at
  \<open>0x10020\<close>, \<open>0x100A0\<close>, \<open>0x10120\<close> and \<open>0x101A0\<close> (128 bytes each) and leave the free
  remainder at \<open>0x10220\<close>; then the second, the third, the first and the fourth block are
  released, in this order.
\<close>

definition heapA :: "script allocator" where
  "heapA = setAllocated 0x101A0 128 (setAllocated 0x10120 128
             (setAllocated 0x100A0 128 (setAllocated 0x10020 128 heap1)))"

definition heapB :: "script allocator" where
  "heapB = mm_free script_provider 0x100A0 heapA"

definition heapC :: "script allocator" where
  "heapC = mm_free script_provider 0x10120 heapB"

definition heapD :: "script allocator" where
  "heapD = mm_free script_provider 0x10020 heapC"

text \<open>
  Another order of release after the same four requests: the first block, then the third.
  The free list is then \<open>0x10120\<close>, \<open>0x10020\<close>, \<open>0x10220\<close>: the most recently released block
  is the head, and the walk is not in the order of the addresses.
\<close>

definition heapE :: "script allocator" where
  "heapE = mm_free script_provider 0x10020 heapA"

definition heapF :: "script allocator" where
  "heapF = mm_free script_provider 0x10120 heapE"

text \<open>
  A run with a second region: the provider has two regions to hand out; a request of
  40900 bytes takes the whole primordial block, and a request of 64 bytes then makes
  \<open>mm_malloc\<close> map the region at \<open>0x20000\<close> and return the block at \<open>0x20020\<close>.
\<close>

definition heap2 :: "script allocator" where
  "heap2 = snd (mm_init script_provider (boot [0x10000, 0x20000]))"

definition heap3 :: "script allocator" where
  "heap3 = setAllocated 0x10020 40928 heap2"

definition heap4 :: "script allocator" where
  "heap4 = setAllocated 0x20020 80 (extend script_provider 80 heap3)"

section \<open>Basic facts\<close>

lemmas macro_defs =
  ALIGNMENT_def ALIGN_def PAGEALIGN_def OVERHEAD_def MINSIZE_def PAGEOVERHEAD_def PAGERATIO_def
  GET_def PUT_def PACK_def GET_ALLOC_def GET_SIZE_def HDRP_def FTRP_def NEXT_BLKP_def
  PREV_BLKP_def node_prev_def node_next_def set_prev_def set_next_def

lemmas script_defs = script_map_def script_unmap_def script_provider_def boot_def

lemmas run_defs =
  mm_init_def mm_free_def mark_free_def extend_def extend_bytes_def init_page_def addEFLNode_def
  removeEFLNode_def setAllocated_def coalesce_def request_size_def

subsection \<open>Alignment and masks\<close>

lemma m15: "(15 :: 64 word) = mask 4"
  by (simp add: mask_eq_exp_minus_1)

lemma and_not_mask_minus: "(x::64 word) AND NOT (mask k) = x - take_bit k x"
proof -
  have "x AND NOT (mask k) = x AND NOT (x AND mask k)"
    by (rule bit_eqI) (auto simp add: bit_simps)
  also have "\<dots> = x - (x AND mask k)"
  proof (rule disjunctive_diff_eq_and_not [symmetric])
    show "NOT x AND (x AND mask k) = 0"
      by (rule bit_eqI) (auto simp add: bit_simps)
  qed
  finally show ?thesis
    by (simp only: take_bit_eq_mask)
qed

lemma unat_take_bit_mod: "unat (take_bit k (x::64 word)) = unat x mod 2 ^ k"
  by (simp only: unsigned_take_bit_eq take_bit_nat_def)

lemma take_bit_le_word: "take_bit k (x::64 word) \<le> x"
  by (simp only: word_le_nat_alt unat_take_bit_mod) simp

lemma unat_and_not_mask: "unat ((x::64 word) AND NOT (mask k)) = (unat x div 2 ^ k) * 2 ^ k"
proof -
  have "unat (x AND NOT (mask k)) = unat x - unat (take_bit k x)"
    by (simp only: and_not_mask_minus unat_sub [OF take_bit_le_word])
  also have "\<dots> = unat x - unat x mod 2 ^ k"
    by (simp only: unat_take_bit_mod)
  finally show ?thesis
    by (simp only: minus_mod_eq_div_mult)
qed

lemma dvd_and_not_mask: "2 ^ k dvd ((x::64 word) AND NOT (mask k))"
proof -
  have "take_bit k (x AND NOT (mask k)) = 0"
    by (rule bit_eqI) (auto simp add: bit_simps)
  then show ?thesis
    by (simp only: take_bit_eq_0_iff)
qed

lemma aligned_iff_dvd: "aligned x = (16 dvd x)"
proof -
  have "(x AND 15 = 0) = (take_bit 4 x = 0)"
    by (simp only: take_bit_eq_mask m15)
  also have "\<dots> = (2 ^ 4 dvd x)"
    by (simp only: take_bit_eq_0_iff)
  finally show ?thesis
    by (simp add: aligned_def)
qed

lemma aligned_size: "aligned x \<Longrightarrow> x AND NOT 15 = x"
proof -
  assume "aligned x"
  then have "take_bit 4 x = 0"
    by (simp only: aligned_def take_bit_eq_mask m15)
  then have "x AND NOT (mask 4) = x"
    by (simp only: and_not_mask_minus) simp
  then show ?thesis
    by (simp only: m15)
qed

lemma aligned_alloc: "aligned x \<Longrightarrow> x AND 1 = 0"
  unfolding aligned_iff_dvd by (metis and_one_eq dvd_trans even_iff_mod_2_eq_zero even_numeral)

lemma aligned_size1: "aligned x \<Longrightarrow> (x OR 1) AND NOT 15 = x"
proof -
  assume a: "aligned x"
  have "(x OR 1) AND NOT 15 = (x AND NOT 15) OR (1 AND NOT 15)"
    by (simp only: bit.conj_disj_distrib2)
  also have "(1::64 word) AND NOT 15 = 0"
    by simp
  finally show ?thesis using aligned_size [OF a] by simp
qed

lemma and_not15_aligned: "aligned (x AND NOT 15)"
  using dvd_and_not_mask [of 4 x] by (simp only: aligned_iff_dvd m15) simp

lemma aligned_add: "aligned x \<Longrightarrow> aligned y \<Longrightarrow> aligned (x + y)"
  by (simp add: aligned_iff_dvd)

lemma aligned_diff: "aligned x \<Longrightarrow> aligned y \<Longrightarrow> aligned (x - y)"
  by (simp add: aligned_iff_dvd)

lemma not_aligned8: "\<not> aligned 8"
  by (simp add: aligned_def)

lemma aligned_8_neq: "aligned x \<Longrightarrow> aligned y \<Longrightarrow> x + 8 \<noteq> y"
proof
  assume a: "aligned x" "aligned y" and e: "x + 8 = y"
  have "y - x = 8" unfolding e [symmetric] by simp
  with aligned_diff [OF a(2) a(1)] not_aligned8 show False by simp
qed

subsection \<open>Simple facts about the operations\<close>

lemma first_fit_null: "first_fit m 0 sz = Some 0"
  by (subst first_fit.simps) simp

lemma request_size_idem:
  "request_size (if sz \<le> MINSIZE then MINSIZE else sz) = request_size sz"
  by (simp add: request_size_def)

lemma extend_fail:
  "mem_map P (extend_bytes (mem_pagesize P) sz) (prov s) = (0, p') \<Longrightarrow>
   extend P sz s = s\<lparr>prov := p'\<rparr>"
  by (simp add: extend_def Let_def)

text \<open>
  A call of \<open>mm_malloc\<close> that finds no fitting block, in a state that \<open>extend\<close> leaves as it
  is (the provider refuses and stays as it is), never returns: the retry meets the same
  state again.
\<close>

lemma mm_malloc_retry_forever:
  assumes ret: "mm_malloc P sz s = Some r"
    and nz: "sz \<noteq> 0"
    and nofit: "first_fit (mem s) (nextFree s) (request_size sz) = Some 0"
    and stuck: "extend P (request_size sz) s = s"
  shows False
proof -
  define Q :: "('a provider \<times> 64 word) \<times> 'a allocator \<Rightarrow> addr \<times> 'a allocator \<Rightarrow> bool"
    where "Q = (\<lambda>x y. \<not> (fst (fst x) = P \<and> snd (fst x) \<noteq> 0
                  \<and> request_size (snd (fst x)) = request_size sz \<and> snd x = s))"
  have "Q ((P, sz), s) r"
  proof (rule mm_malloc.raw_induct [where Pa = Q, OF _ ret])
    fix mm :: "'a provider \<Rightarrow> 64 word \<Rightarrow> 'a allocator \<Rightarrow> (addr \<times> 'a allocator) option"
      and P' sz' s' r'
    assume IH: "\<And>a b c y. mm a b c = Some y \<Longrightarrow> Q ((a, b), c) y"
      and body: "(if sz' = 0 then Some (0, s')
        else case first_fit (mem s') (nextFree s') (request_size sz') of
           None \<Rightarrow> None
         | Some avail \<Rightarrow>
             if avail \<noteq> 0 then Some (avail, setAllocated avail (request_size sz') s')
             else mm P' (if sz' \<le> MINSIZE then MINSIZE else sz')
                    (extend P' (request_size sz') s')) = Some r'"
    show "Q ((P', sz'), s') r'"
      unfolding Q_def
    proof
      assume "fst (fst ((P', sz'), s')) = P \<and> snd (fst ((P', sz'), s')) \<noteq> 0
            \<and> request_size (snd (fst ((P', sz'), s'))) = request_size sz \<and> snd ((P', sz'), s') = s"
      then have eqs: "P' = P" "sz' \<noteq> 0" "request_size sz' = request_size sz" "s' = s"
        by simp_all
      from body eqs nofit stuck
      have "mm P (if sz' \<le> MINSIZE then MINSIZE else sz') s = Some r'"
        by simp
      then have "Q ((P, if sz' \<le> MINSIZE then MINSIZE else sz'), s) r'"
        by (rule IH)
      moreover have "(if sz' \<le> MINSIZE then MINSIZE else sz') \<noteq> 0"
        using eqs by (simp add: MINSIZE_def)
      moreover have "request_size (if sz' \<le> MINSIZE then MINSIZE else sz') = request_size sz"
        using eqs by (simp add: request_size_idem)
      ultimately show False
        by (simp add: Q_def)
    qed
  qed
  with nz show False by (simp add: Q_def)
qed

lemma addEFLNode_fields [simp]:
  "nextFree (addEFLNode n s) = n"
  "basePage (addEFLNode n s) = basePage s"
  "prov (addEFLNode n s) = prov s"
  by (simp_all add: addEFLNode_def Let_def)

lemma addEFLNode_mem_other:
  "a \<noteq> n \<Longrightarrow> a \<noteq> n + 8 \<Longrightarrow> a \<noteq> nextFree s \<Longrightarrow> mem (addEFLNode n s) a = mem s a"
  by (simp add: addEFLNode_def Let_def set_prev_def set_next_def PUT_def)

lemma addEFLNode_empty_links:
  "nextFree s = 0 \<Longrightarrow> node_prev (mem (addEFLNode n s)) n = 0 \<and> node_next (mem (addEFLNode n s)) n = 0"
  by (simp add: addEFLNode_def Let_def set_prev_def set_next_def PUT_def node_prev_def node_next_def GET_def)

lemma init_page_header: "init_page pageAdr bytes m (pageAdr + 24) = bytes - 32"
  by (simp add: init_page_def Let_def macro_defs)

lemma extend_success:
  assumes "mem_map P (extend_bytes (mem_pagesize P) sz) (prov s) = (adr, p')" "adr \<noteq> 0"
  shows "extend P sz s =
     (let s1 = addEFLNode (adr + 32)
                 (s\<lparr>mem := init_page adr (extend_bytes (mem_pagesize P) sz) (mem s), prov := p'\<rparr>)
      in if basePage s = 0 then s1\<lparr>basePage := adr\<rparr> else s1)"
  using assms by (simp add: extend_def Let_def PAGEOVERHEAD_def)

lemma extend_success_fields:
  assumes "mem_map P (extend_bytes (mem_pagesize P) sz) (prov s) = (adr, p')" "adr \<noteq> 0"
  shows "nextFree (extend P sz s) = adr + 32"
    and "basePage (extend P sz s) = (if basePage s = 0 then adr else basePage s)"
    and "prov (extend P sz s) = p'"
    and "mem (extend P sz s) =
           mem (addEFLNode (adr + 32)
                 (s\<lparr>mem := init_page adr (extend_bytes (mem_pagesize P) sz) (mem s), prov := p'\<rparr>))"
  by (simp_all add: extend_success [OF assms] Let_def)

lemma extend_success_header:
  assumes "mem_map P (extend_bytes (mem_pagesize P) sz) (prov s) = (adr, p')" "adr \<noteq> 0"
    and "nextFree s \<noteq> adr + 24"
  shows "GET (mem (extend P sz s)) (HDRP (adr + 32)) = extend_bytes (mem_pagesize P) sz - 32"
proof -
  let ?s1 = "s\<lparr>mem := init_page adr (extend_bytes (mem_pagesize P) sz) (mem s), prov := p'\<rparr>"
  have "mem (addEFLNode (adr + 32) ?s1) (adr + 24) = mem ?s1 (adr + 24)"
    by (rule addEFLNode_mem_other) (use assms(3) in auto)
  moreover have "HDRP (adr + 32) = adr + 24"
    by (simp add: HDRP_def)
  ultimately show ?thesis
    by (simp only: extend_success_fields [OF assms(1,2)] GET_def) (simp add: init_page_header)
qed

subsection \<open>The size of a region\<close>

lemma pow2_lt: "k < 64 \<Longrightarrow> (2::nat) ^ k < 2 ^ 64"
  by (rule power_strict_increasing) simp_all

lemma unat_2p: "k < 64 \<Longrightarrow> unat ((2::64 word) ^ k) = 2 ^ k"
proof -
  assume k: "k < 64"
  have "(2::64 word) ^ k = of_nat (2 ^ k)" by simp
  then have "unat ((2::64 word) ^ k) = 2 ^ k mod 2 ^ LENGTH(64)"
    by (simp only: unat_of_nat)
  then show ?thesis using pow2_lt [OF k] by simp
qed

lemma PAGEALIGN_pow2: "PAGEALIGN (2 ^ k) x = (x + (2 ^ k - 1)) AND NOT (mask k)"
  by (simp only: PAGEALIGN_def mask_eq_decr_exp)

lemma extend_bytes_dvd: "2 ^ k dvd extend_bytes (2 ^ k) sz"
proof (cases "sz mod 2 ^ k = 0")
  case True
  then have "2 ^ k dvd sz" by (rule mod_0_imp_dvd)
  then show ?thesis using True by (simp add: extend_bytes_def)
next
  case False
  then show ?thesis
    by (simp add: extend_bytes_def PAGEALIGN_pow2 dvd_and_not_mask)
qed

lemma extend_bytes_aligned:
  assumes "4 \<le> k"
  shows "aligned (extend_bytes (2 ^ k) sz)"
proof -
  have "(2::64 word) ^ 4 dvd 2 ^ k"
    using assms by (rule le_imp_power_dvd)
  then have "(16::64 word) dvd 2 ^ k" by simp
  then show ?thesis
    unfolding aligned_iff_dvd using extend_bytes_dvd [of k sz] by (rule dvd_trans)
qed

lemma page_aligned_ge: "0 < ps \<Longrightarrow> n \<le> page_aligned ps n"
proof -
  assume ps: "0 < ps"
  have "n + ps - 1 < ((n + ps - 1) div ps) * ps + ps"
    using ps by (metis add.commute div_mult_mod_eq mod_less_divisor add_strict_left_mono mult.commute)
  then show ?thesis using ps by (simp add: page_aligned_def)
qed

lemma page_aligned_ge_ps: "0 < ps \<Longrightarrow> 0 < n \<Longrightarrow> ps \<le> page_aligned ps n"
proof -
  assume ps: "0 < ps" and n: "0 < n"
  then have "ps \<le> n + ps - 1" by simp
  then have "1 \<le> (n + ps - 1) div ps"
    using ps by (simp add: div_greater_zero_iff Suc_le_eq)
  then have "ps * 1 \<le> ps * ((n + ps - 1) div ps)"
    by (rule mult_le_mono2)
  then show ?thesis by (simp add: page_aligned_def mult.commute)
qed

lemma page_aligned_dvd: "0 < ps \<Longrightarrow> n mod ps = 0 \<Longrightarrow> page_aligned ps n = n"
proof -
  assume ps: "0 < ps" and "n mod ps = 0"
  then obtain q where q: "n = q * ps" by auto
  from ps obtain p where p: "ps = Suc p" by (cases ps) auto
  have "(q * Suc p + Suc p - 1) div Suc p = (p + q * Suc p) div Suc p"
    by (simp add: add.commute)
  also have "\<dots> = q"
    by (metis add_cancel_left_right div_less div_mult_self1 lessI nat.distinct(1))
  finally show ?thesis by (simp only: page_aligned_def q p)
qed

lemma unat_extend_bytes:
  assumes k: "k < 64" and pos: "0 < sz"
    and nowrap: "10 * page_aligned (2 ^ k) (unat sz) < 2 ^ 64"
  shows "unat (extend_bytes (2 ^ k) sz) = 10 * page_aligned (2 ^ k) (unat sz)"
proof -
  let ?n = "unat sz"
  let ?ps = "(2::nat) ^ k"
  have ps: "0 < ?ps" by simp
  have n: "0 < ?n" using pos by (simp add: word_less_nat_alt)
  have ten: "\<And>y::64 word. 10 * unat y < 2 ^ 64 \<Longrightarrow> unat (y * 10) = 10 * unat y"
  proof -
    fix y :: "64 word"
    assume "10 * unat y < 2 ^ 64"
    then have "unat y * unat (10::64 word) < 2 ^ LENGTH(64)" by simp
    then have "unat (y * 10) = unat y * unat (10::64 word)" by (simp only: unat_mult_lem)
    then show "unat (y * 10) = 10 * unat y" by simp
  qed
  show ?thesis
  proof (cases "sz mod 2 ^ k = 0")
    case True
    then have "unat (sz mod 2 ^ k) = 0" by simp
    then have "?n mod ?ps = 0" using k by (simp add: unat_mod unat_2p)
    then have pa: "page_aligned ?ps ?n = ?n" using ps by (rule page_aligned_dvd [rotated])
    with nowrap have "10 * ?n < 2 ^ 64" by simp
    then have "unat (sz * 10) = 10 * ?n" by (rule ten)
    with True pa show ?thesis by (simp add: extend_bytes_def PAGERATIO_def)
  next
    case False
    have ge: "?ps \<le> page_aligned ?ps ?n" using ps n by (rule page_aligned_ge_ps)
    have ge2: "?n \<le> page_aligned ?ps ?n" using ps by (rule page_aligned_ge)
    have small: "?n + (?ps - 1) < 2 ^ 64" using ge ge2 nowrap by simp
    have "(2::64 word) ^ k \<noteq> 0"
      using unat_2p [OF k] by (metis power_not_zero unat_0 zero_neq_numeral)
    then have "unat ((2::64 word) ^ k - 1) = ?ps - 1"
      using k by (simp add: unat_minus_one unat_2p)
    then have sum: "unat (sz + (2 ^ k - 1)) = ?n + (?ps - 1)"
      using small unat_add_lem [of sz "2 ^ k - 1"] by simp
    have "unat (PAGEALIGN (2 ^ k) sz) = ((?n + (?ps - 1)) div ?ps) * ?ps"
      by (simp only: PAGEALIGN_pow2 unat_and_not_mask sum)
    also have "\<dots> = page_aligned ?ps ?n"
      using ps by (simp add: page_aligned_def)
    finally have pa: "unat (PAGEALIGN (2 ^ k) sz) = page_aligned ?ps ?n" .
    with nowrap have "10 * unat (PAGEALIGN (2 ^ k) sz) < 2 ^ 64" by simp
    then have "unat (PAGEALIGN (2 ^ k) sz * 10) = 10 * unat (PAGEALIGN (2 ^ k) sz)" by (rule ten)
    with False pa show ?thesis by (simp add: extend_bytes_def PAGERATIO_def)
  qed
qed

lemma header_free_word:
  "aligned sz \<Longrightarrow> GET m p = sz \<Longrightarrow> GET_ALLOC m p = 0 \<and> GET_SIZE m p = sz"
  by (simp only: GET_ALLOC_def GET_SIZE_def aligned_alloc aligned_size)

lemma first_fit_head:
  "h \<noteq> 0 \<Longrightarrow> sz \<le> GET_SIZE m (HDRP h) \<Longrightarrow> first_fit m h sz = Some h"
  by (subst first_fit.simps) simp

lemma extend_new_block:
  assumes ps: "mem_pagesize P = 2 ^ k" "4 \<le> k"
    and map: "mem_map P (extend_bytes (mem_pagesize P) sz) (prov s) = (adr, p')" "adr \<noteq> 0"
    and fresh: "nextFree s \<noteq> HDRP (adr + PAGEOVERHEAD)"
  shows "GET_ALLOC (mem (extend P sz s)) (HDRP (adr + PAGEOVERHEAD)) = 0
    \<and> GET_SIZE (mem (extend P sz s)) (HDRP (adr + PAGEOVERHEAD))
        = extend_bytes (mem_pagesize P) sz - PAGEOVERHEAD
    \<and> PAGEOVERHEAD = 4 * 8"
proof -
  have f: "nextFree s \<noteq> adr + 24"
    using fresh by (simp add: HDRP_def PAGEOVERHEAD_def add.commute)
  have "aligned (32 :: 64 word)"
    by (simp add: aligned_def)
  with extend_bytes_aligned [OF ps(2), of sz]
  have a: "aligned (extend_bytes (mem_pagesize P) sz - 32)"
    unfolding ps(1) by (rule aligned_diff)
  have "GET (mem (extend P sz s)) (HDRP (adr + 32)) = extend_bytes (mem_pagesize P) sz - 32"
    using map f by (rule extend_success_header)
  with header_free_word [OF a] show ?thesis
    by (simp add: PAGEOVERHEAD_def)
qed

subsection \<open>The free list as a list\<close>

lemma links_Cons: "links (x # xs) = {x, x + 8} \<union> links xs"
  by (auto simp add: links_def)

lemma links_Nil [simp]: "links [] = {}"
  by (simp add: links_def)

lemma links_mono: "set ys \<subseteq> set xs \<Longrightarrow> links ys \<subseteq> links xs"
  by (auto simp add: links_def)

text \<open>The list predicate reads the link cells of its nodes only.\<close>

lemma efl_cong:
  "(\<And>a. a \<in> links xs \<Longrightarrow> m' a = m a) \<Longrightarrow> efl m' p h xs = efl m p h xs"
proof (induction xs arbitrary: p h)
  case Nil
  show ?case by simp
next
  case (Cons x xs)
  have x: "m' x = m x" "m' (x + 8) = m (x + 8)"
    using Cons.prems by (simp_all add: links_Cons)
  have "efl m' x (m (x + 8)) xs = efl m x (m (x + 8)) xs"
    by (rule Cons.IH) (simp add: Cons.prems links_Cons)
  with x show ?case
    by (simp add: node_prev_def node_next_def GET_def)
qed

lemma efl_unique: "efl m p h xs \<Longrightarrow> efl m p' h ys \<Longrightarrow> length xs \<le> length ys \<Longrightarrow> xs = ys"
proof (induction xs arbitrary: p p' h ys)
  case Nil
  then show ?case by (cases ys) auto
next
  case (Cons x xs)
  then show ?case by (cases ys) auto
qed

lemma efl_same_length: "efl m p h xs \<Longrightarrow> efl m p' h ys \<Longrightarrow> length xs = length ys"
proof (induction xs arbitrary: p p' h ys)
  case Nil
  then show ?case by (cases ys) auto
next
  case (Cons x xs)
  then show ?case by (cases ys) auto
qed

lemma efl_suffix: "efl m p h xs \<Longrightarrow> x \<in> set xs \<Longrightarrow>
  \<exists>q ys. efl m q x (x # ys) \<and> length ys < length xs"
proof (induction xs arbitrary: p h)
  case Nil
  then show ?case by simp
next
  case (Cons y xs)
  show ?case
  proof (cases "x = y")
    case True
    with Cons.prems(1) have "efl m p x (x # xs)" by simp
    then show ?thesis by (intro exI [of _ p] exI [of _ xs]) simp
  next
    case False
    with Cons.prems have "x \<in> set xs" "efl m y (node_next m y) xs" by simp_all
    from Cons.IH [OF this(2,1)] obtain q ys where "efl m q x (x # ys)" "length ys < length xs"
      by blast
    then show ?thesis by (intro exI [of _ q] exI [of _ ys]) simp
  qed
qed

lemma efl_head_not_in_tail: "efl m p h (x # xs) \<Longrightarrow> x \<notin> set xs"
proof
  assume e: "efl m p h (x # xs)" and "x \<in> set xs"
  from e have t: "efl m x (node_next m x) xs" by simp
  from efl_suffix [OF t \<open>x \<in> set xs\<close>] obtain q ys
    where ys: "efl m q x (x # ys)" "length ys < length xs" by blast
  from ys(1) have "efl m x (node_next m x) ys" by simp
  from efl_same_length [OF this t] ys(2) show False by simp
qed

lemma efl_distinct: "efl m p h xs \<Longrightarrow> distinct xs"
proof (induction xs arbitrary: p h)
  case Nil
  show ?case by simp
next
  case (Cons x xs)
  from Cons.prems have "efl m x (node_next m x) xs" by simp
  then have "distinct xs" by (rule Cons.IH)
  with efl_head_not_in_tail [OF Cons.prems] show ?case by simp
qed

lemma efl_nonnull: "efl m p h xs \<Longrightarrow> 0 \<notin> set xs"
  by (induction xs arbitrary: p h) auto

lemma efl_head: "efl m p h xs \<Longrightarrow> h = (case xs of [] \<Rightarrow> 0 | x # _ \<Rightarrow> x)"
  by (cases xs) auto

lemma efl_next_in: "efl m p h xs \<Longrightarrow> x \<in> set xs \<Longrightarrow> node_next m x = 0 \<or> node_next m x \<in> set xs"
proof (induction xs arbitrary: p h)
  case Nil
  then show ?case by simp
next
  case (Cons y xs)
  from Cons.prems(1) have t: "efl m y (node_next m y) xs" by simp
  show ?case
  proof (cases "x = y")
    case True
    with t show ?thesis by (cases xs) auto
  next
    case False
    with Cons.prems(2) have "x \<in> set xs" by simp
    from Cons.IH [OF t this] show ?thesis by auto
  qed
qed

lemma efl_prev_in: "efl m p h xs \<Longrightarrow> x \<in> set xs \<Longrightarrow> x \<noteq> h \<Longrightarrow> node_prev m x \<in> set xs"
proof (induction xs arbitrary: p h)
  case Nil
  then show ?case by simp
next
  case (Cons y xs)
  from Cons.prems(1) have t: "efl m y (node_next m y) xs" and h: "h = y" by simp_all
  from Cons.prems(2,3) h have x: "x \<in> set xs" by simp
  show ?case
  proof (cases "x = node_next m y")
    case True
    with t x have "node_prev m x = y" by (cases xs) auto
    then show ?thesis by simp
  next
    case False
    from Cons.IH [OF t x] False show ?thesis by simp
  qed
qed

lemma efl_prev_head: "efl m p h xs \<Longrightarrow> h \<noteq> 0 \<Longrightarrow> node_prev m h = p"
  by (cases xs) auto

lemma removeEFLNode_unlink:
  assumes "x \<noteq> node_prev (mem s) x + 8"
  shows "removeEFLNode x s =
     s\<lparr>mem := unlink (mem s) x,
       nextFree := (if node_prev (mem s) x = 0 then node_next (mem s) x else nextFree s)\<rparr>"
  using assms
  by (auto simp add: removeEFLNode_def unlink_def Let_def node_prev_def node_next_def
      set_prev_def set_next_def GET_def PUT_def)

lemma unlink_other:
  "a \<noteq> node_prev m x + 8 \<Longrightarrow> a \<noteq> node_next m x \<Longrightarrow> unlink m x a = m a"
  by (simp add: unlink_def Let_def set_prev_def set_next_def PUT_def)

lemma aligned_8_neq': "aligned x \<Longrightarrow> aligned y \<Longrightarrow> x \<noteq> y + 8"
  using aligned_8_neq [of y x] by auto

lemma add8_neq [simp]: "(x :: 64 word) + 8 \<noteq> x" "x \<noteq> x + 8"
  by simp_all

lemma efl_unlink:
  assumes "efl m p h xs" "x \<in> set xs" "list_all aligned xs" "p = 0 \<or> (aligned p \<and> p \<notin> set xs)"
  shows "efl (unlink m x) p (if h = x then node_next m x else h) (remove1 x xs)"
  using assms
proof (induction xs arbitrary: p h)
  case Nil
  then show ?case by simp
next
  case (Cons y ys)
  from Cons.prems(1) have h: "h = y" and y0: "y \<noteq> 0" and py: "node_prev m y = p"
    and t: "efl m y (node_next m y) ys" by simp_all
  from Cons.prems(3) have ay: "aligned y" and ays: "list_all aligned ys" by simp_all
  have d: "distinct (y # ys)" using Cons.prems(1) by (rule efl_distinct)
  then have yn: "y \<notin> set ys" by simp
  show ?case
  proof (cases "x = y")
    case True
    let ?n = "node_next m x"
    have goal: "efl (unlink m x) p ?n ys"
    proof (cases ys)
      case Nil
      with t True show ?thesis by simp
    next
      case (Cons z zs)
      with t True have n: "?n = z" and z0: "z \<noteq> 0" and pz: "node_prev m z = x"
        and tz: "efl m z (node_next m z) zs" by simp_all
      have az: "aligned z" and azs: "list_all aligned zs" using ays Cons by simp_all
      have zp: "z \<noteq> p" using Cons.prems(4) Cons z0 by auto
      have zn: "z \<notin> set zs" using d Cons by simp
      have pzs: "p \<noteq> 0 \<Longrightarrow> p \<notin> set zs \<and> aligned p" using Cons.prems(4) Cons by auto
      have m': "unlink m x = (if p \<noteq> 0 then m(p + 8 := z) else m)(z := p)"
        using py True n z0
        by (simp add: unlink_def Let_def set_prev_def set_next_def PUT_def)
      have c1: "node_prev (unlink m x) z = p"
        by (simp add: m' node_prev_def GET_def)
      have c2: "node_next (unlink m x) z = node_next m z"
        using zp by (simp add: m' node_next_def GET_def)
      have "efl (unlink m x) z (node_next m z) zs = efl m z (node_next m z) zs"
      proof (rule efl_cong)
        fix a assume a: "a \<in> links zs"
        then obtain w where w: "w \<in> set zs" "a = w \<or> a = w + 8"
          by (auto simp add: links_def)
        have aw: "aligned w" using azs w(1) by (simp add: list_all_iff)
        have "a \<noteq> z"
          using w zn aligned_8_neq [OF aw az] by auto
        moreover have "p \<noteq> 0 \<Longrightarrow> a \<noteq> p + 8"
          using w pzs aligned_8_neq' [OF aw, of p] by auto
        ultimately show "unlink m x a = m a"
          by (simp add: m')
      qed
      with tz c1 c2 z0 Cons n show ?thesis by simp
    qed
    with True h show ?thesis by simp
  next
    case False
    with Cons.prems(2) have x: "x \<in> set ys" by simp
    have ax: "aligned x" using ays x by (simp add: list_all_iff)
    have IH: "efl (unlink m x) y (if node_next m y = x then node_next m x else node_next m y)
                (remove1 x ys)"
      using t x ays by (rule Cons.IH) (simp add: ay yn)
    let ?px = "node_prev m x" and ?nx = "node_next m x"
    have nx: "?nx = 0 \<or> ?nx \<in> set ys" using t x by (rule efl_next_in)
    have px: "?px = y \<or> ?px \<in> set ys"
    proof (cases "x = node_next m y")
      case True
      with t x have "?px = y" by (cases ys) auto
      then show ?thesis ..
    next
      case False
      from efl_prev_in [OF t x this] show ?thesis ..
    qed
    have apx: "aligned ?px" using px ay ays by (auto simp add: list_all_iff)
    have anx: "?nx \<noteq> 0 \<Longrightarrow> aligned ?nx" using nx ays by (auto simp add: list_all_iff)
    have c1: "node_prev (unlink m x) y = p"
    proof -
      have "y \<noteq> ?px + 8" using aligned_8_neq' [OF ay apx] .
      moreover have "?nx \<noteq> 0 \<Longrightarrow> y \<noteq> ?nx" using nx yn by auto
      ultimately have "unlink m x y = m y"
        by (auto simp add: unlink_def Let_def set_prev_def set_next_def PUT_def)
      with py show ?thesis by (simp add: node_prev_def GET_def)
    qed
    have hd_iff: "(node_next m y = x) = (?px = y)"
    proof
      assume "node_next m y = x"
      with t x show "?px = y" by (cases ys) auto
    next
      assume e: "?px = y"
      show "node_next m y = x"
      proof (rule ccontr)
        assume "node_next m y \<noteq> x"
        then have "x \<noteq> node_next m y" by simp
        from efl_prev_in [OF t x this] e yn show False by simp
      qed
    qed
    have c2: "node_next (unlink m x) y = (if node_next m y = x then ?nx else node_next m y)"
    proof -
      have ne: "?nx \<noteq> 0 \<Longrightarrow> y + 8 \<noteq> ?nx"
        using aligned_8_neq [OF ay] anx by simp
      have p0: "?px \<noteq> 0" using px y0 efl_nonnull [OF t] by auto
      show ?thesis
        using ne p0 hd_iff
        by (auto simp add: unlink_def Let_def set_prev_def set_next_def PUT_def node_next_def GET_def)
    qed
    from IH c1 c2 y0 False h show ?thesis by simp
  qed
qed

lemma aligned_0 [simp]: "aligned 0"
  by (simp add: aligned_def)

lemma EFL_frame:
  assumes "EFL s xs" "\<And>a. a \<in> links xs \<Longrightarrow> mem s' a = mem s a" "nextFree s' = nextFree s"
  shows "EFL s' xs"
  using assms efl_cong [of xs "mem s'" "mem s" 0 "nextFree s"] by (simp add: EFL_def)

lemma removeEFLNode_fields [simp]:
  "basePage (removeEFLNode x s) = basePage s"
  "prov (removeEFLNode x s) = prov s"
  by (simp_all add: removeEFLNode_def Let_def)

lemma EFL_remove:
  assumes "EFL s xs" "x \<in> set xs"
  shows "EFL (removeEFLNode x s) (remove1 x xs)"
    and "\<And>a. a \<notin> links xs \<Longrightarrow> mem (removeEFLNode x s) a = mem s a"
proof -
  let ?m = "mem s"
  from assms(1) have e: "efl ?m 0 (nextFree s) xs" and al: "list_all aligned xs"
    by (simp_all add: EFL_def)
  have ax: "aligned x" using al assms(2) by (simp add: list_all_iff)
  have n0: "0 \<notin> set xs" using e by (rule efl_nonnull)
  have px: "node_prev ?m x = 0 \<or> node_prev ?m x \<in> set xs"
  proof (cases "x = nextFree s")
    case True
    with e assms(2) n0 have "node_prev ?m x = 0" by (metis efl_prev_head)
    then show ?thesis ..
  next
    case False
    from efl_prev_in [OF e assms(2) this] show ?thesis ..
  qed
  have nx: "node_next ?m x = 0 \<or> node_next ?m x \<in> set xs"
    using e assms(2) by (rule efl_next_in)
  have apx: "aligned (node_prev ?m x)" using px al by (auto simp add: list_all_iff)
  have r: "removeEFLNode x s =
     s\<lparr>mem := unlink ?m x,
       nextFree := (if node_prev ?m x = 0 then node_next ?m x else nextFree s)\<rparr>"
    by (rule removeEFLNode_unlink) (rule aligned_8_neq' [OF ax apx])
  have hd_iff: "(node_prev ?m x = 0) = (nextFree s = x)"
  proof
    assume z: "node_prev ?m x = 0"
    show "nextFree s = x"
    proof (rule ccontr)
      assume "nextFree s \<noteq> x"
      then have "x \<noteq> nextFree s" by simp
      from efl_prev_in [OF e assms(2) this] z n0 show False by simp
    qed
  next
    assume "nextFree s = x"
    with e assms(2) n0 show "node_prev ?m x = 0" by (metis efl_prev_head)
  qed
  have "efl (unlink ?m x) 0 (if nextFree s = x then node_next ?m x else nextFree s) (remove1 x xs)"
    using e assms(2) al by (rule efl_unlink) simp
  moreover have "list_all aligned (remove1 x xs)"
    using al by (auto simp add: list_all_iff dest: notin_set_remove1)
  ultimately show "EFL (removeEFLNode x s) (remove1 x xs)"
    using hd_iff by (simp add: r EFL_def)
  show "mem (removeEFLNode x s) a = mem s a" if a: "a \<notin> links xs" for a
  proof -
    have "node_prev ?m x \<noteq> 0 \<Longrightarrow> a \<noteq> node_prev ?m x + 8"
      using px a by (auto simp add: links_def)
    moreover have "node_next ?m x \<noteq> 0 \<Longrightarrow> a \<noteq> node_next ?m x"
      using nx a by (auto simp add: links_def)
    ultimately have "unlink ?m x a = ?m a"
      by (auto simp add: unlink_def Let_def set_prev_def set_next_def PUT_def)
    then show ?thesis by (simp add: r)
  qed
qed

lemma removeEFLNode_nextFree:
  assumes "EFL s xs" "x \<in> set xs"
  shows "nextFree (removeEFLNode x s) = (case remove1 x xs of [] \<Rightarrow> 0 | y # _ \<Rightarrow> y)"
  using EFL_remove(1) [OF assms] by (auto simp add: EFL_def dest: efl_head)

lemma EFL_add:
  assumes "EFL s xs" "x \<notin> set xs" "x \<noteq> 0" "aligned x"
  shows "EFL (addEFLNode x s) (x # xs)"
    and "\<And>a. a \<noteq> x \<Longrightarrow> a \<noteq> x + 8 \<Longrightarrow> a \<notin> links xs \<Longrightarrow> mem (addEFLNode x s) a = mem s a"
proof -
  let ?m = "mem s"
  from assms(1) have e: "efl ?m 0 (nextFree s) xs" and al: "list_all aligned xs"
    by (simp_all add: EFL_def)
  show "EFL (addEFLNode x s) (x # xs)"
  proof (cases xs)
    case Nil
    with e have "nextFree s = 0" by simp
    then show ?thesis
      using assms(3,4) Nil
      by (simp add: EFL_def addEFLNode_def Let_def set_prev_def set_next_def PUT_def
          node_prev_def node_next_def GET_def)
  next
    case (Cons h ys)
    with e have h: "nextFree s = h" "h \<noteq> 0" "node_prev ?m h = 0"
      and t: "efl ?m h (node_next ?m h) ys" by simp_all
    have ah: "aligned h" and ays: "list_all aligned ys" using al Cons by simp_all
    have xh: "x \<noteq> h" and xys: "x \<notin> set ys" using assms(2) Cons by simp_all
    have hys: "h \<notin> set ys" using efl_head_not_in_tail e Cons by blast
    let ?m' = "?m(x := 0, x + 8 := h, h := x)"
    have m': "mem (addEFLNode x s) = ?m'" and nf: "nextFree (addEFLNode x s) = x"
      using h by (simp_all add: addEFLNode_def Let_def set_prev_def set_next_def PUT_def)
    have c1: "node_prev ?m' x = 0" using xh by (simp add: node_prev_def GET_def)
    have c2: "node_next ?m' x = h"
      using aligned_8_neq [OF assms(4) ah] by (simp add: node_next_def GET_def)
    have c3: "node_prev ?m' h = x" by (simp add: node_prev_def GET_def)
    have c4: "node_next ?m' h = node_next ?m h"
      using xh aligned_8_neq [OF ah assms(4)] by (simp add: node_next_def GET_def)
    have "efl ?m' h (node_next ?m h) ys = efl ?m h (node_next ?m h) ys"
    proof (rule efl_cong)
      fix a assume "a \<in> links ys"
      then obtain w where w: "w \<in> set ys" "a = w \<or> a = w + 8"
        by (auto simp add: links_def)
      have aw: "aligned w" using ays w(1) by (simp add: list_all_iff)
      have "a \<noteq> x" using w xys aligned_8_neq [OF aw assms(4)] by auto
      moreover have "a \<noteq> x + 8" using w xys aligned_8_neq' [OF aw assms(4)] by auto
      moreover have "a \<noteq> h" using w hys aligned_8_neq [OF aw ah] by auto
      ultimately show "?m' a = ?m a" by simp
    qed
    with t c1 c2 c3 c4 h assms(3,4) al Cons show ?thesis
      by (simp add: EFL_def m' nf)
  qed
  show "mem (addEFLNode x s) a = mem s a" if "a \<noteq> x" "a \<noteq> x + 8" "a \<notin> links xs" for a
  proof -
    have "nextFree s \<noteq> 0 \<Longrightarrow> a \<noteq> nextFree s"
      using e that(3) by (cases xs) (auto simp add: links_def)
    then show ?thesis using that(1,2)
      by (auto simp add: addEFLNode_def Let_def set_prev_def set_next_def PUT_def)
  qed
qed

subsection \<open>The first-fit walk and the request size\<close>

lemma first_fit_efl:
  "efl m p h xs \<Longrightarrow>
   first_fit m h sz = Some (case find (\<lambda>x. sz \<le> GET_SIZE m (HDRP x)) xs of None \<Rightarrow> 0 | Some x \<Rightarrow> x)"
proof (induction xs arbitrary: p h)
  case Nil
  then show ?case by (simp add: first_fit_null)
next
  case (Cons x xs)
  then have h: "h = x" "x \<noteq> 0" and t: "efl m x (node_next m x) xs" by simp_all
  show ?case
  proof (cases "sz \<le> GET_SIZE m (HDRP x)")
    case True
    with h show ?thesis by (simp add: first_fit_head)
  next
    case False
    have "first_fit m h sz = first_fit m (node_next m x) sz"
      using h False by (subst first_fit.simps) simp
    with Cons.IH [OF t] False show ?thesis by simp
  qed
qed

lemma unat_ALIGN: "unat y + 15 < 2 ^ 64 \<Longrightarrow> unat (ALIGN y) = align_up (unat y) 16"
proof -
  assume "unat y + 15 < 2 ^ 64"
  then have "unat (y + 15) = unat y + 15"
    using unat_add_lem [of y 15] by simp
  moreover have "ALIGN y = (y + 15) AND NOT (mask 4)"
    by (simp add: ALIGN_def ALIGNMENT_def m15 [symmetric])
  ultimately show ?thesis
    by (simp only: unat_and_not_mask align_up_def) simp
qed

lemma unat_request_size:
  assumes "unat n + 31 < 2 ^ 64"
  shows "unat (request_size n) = align_up (max (unat n) (2 * 8) + 16) 16"
proof -
  let ?m = "if n \<le> MINSIZE then MINSIZE else n"
  have m: "unat ?m = max (unat n) 16"
    by (auto simp add: MINSIZE_def word_le_nat_alt)
  have "unat ?m + 16 < 2 ^ 64" using assms m by (simp add: max_def split: if_splits)
  then have s: "unat (?m + 16) = max (unat n) 16 + 16"
    using unat_add_lem [of ?m 16] m by simp
  have "unat (?m + 16) + 15 < 2 ^ 64"
    using assms s by (simp add: max_def split: if_splits)
  then have "unat (ALIGN (?m + 16)) = align_up (unat (?m + 16)) 16"
    by (rule unat_ALIGN)
  then show ?thesis
    using s by (simp add: request_size_def OVERHEAD_def)
qed

subsection \<open>Blocks and the cells inside them\<close>

lemma in_block_offset: "off < sz \<Longrightarrow> in_block bp sz (bp - 8 + off)"
  by (simp add: in_block_def HDRP_def)

lemma clear_of_links:
  assumes "clear_of bp sz xs" "off < sz" "off \<noteq> 8" "off \<noteq> 16"
  shows "bp - 8 + off \<notin> links xs"
proof
  assume "bp - 8 + off \<in> links xs"
  then obtain x where x: "x \<in> set xs" "bp - 8 + off = x \<or> bp - 8 + off = x + 8"
    by (auto simp add: links_def)
  show False
  proof (cases "x = bp")
    case True
    with x(2) assms(3,4) show False by auto
  next
    case False
    with assms(1) x(1) have "\<not> in_block bp sz x \<and> \<not> in_block bp sz (x + 8)"
      by (auto simp add: clear_of_def list_all_iff)
    with in_block_offset [OF assms(2), of bp] x(2) show False by metis
  qed
qed

lemma clear_of_links_others:
  assumes "clear_of bp sz xs" "off < sz" "distinct xs"
  shows "bp - 8 + off \<notin> links (remove1 bp xs)"
proof
  assume "bp - 8 + off \<in> links (remove1 bp xs)"
  then obtain x where x: "x \<in> set (remove1 bp xs)" "bp - 8 + off = x \<or> bp - 8 + off = x + 8"
    by (auto simp add: links_def)
  from x(1) assms(3) have "x \<in> set xs" "x \<noteq> bp" by auto
  with assms(1) have "\<not> in_block bp sz x \<and> \<not> in_block bp sz (x + 8)"
    by (auto simp add: clear_of_def list_all_iff)
  with in_block_offset [OF assms(2), of bp] x(2) show False by metis
qed

lemma w1: "(32::64 word) \<le> sz \<Longrightarrow> sz \<le> avail \<Longrightarrow> sz - 8 < avail"
  by unat_arith

lemma w2: "(32::64 word) \<le> avail \<Longrightarrow> avail - 8 < avail"
  by unat_arith

lemma w3: "(32::64 word) \<le> avail - sz \<Longrightarrow> sz \<le> avail \<Longrightarrow> sz < avail"
  by unat_arith

lemma w4: "(32::64 word) \<le> avail - sz \<Longrightarrow> sz \<le> avail \<Longrightarrow> sz + 8 < avail"
  by unat_arith

lemma w5: "(32::64 word) \<le> avail - sz \<Longrightarrow> sz \<le> avail \<Longrightarrow> sz + 16 < avail"
  by unat_arith

lemma cell_eq: "((b::64 word) - 8 + x = b - 8 + y) = (x = y)"
  by simp

lemma cells:
  "HDRP bp = bp - 8 + 0"
  "bp + sz - 16 = bp - 8 + (sz - 8)"
  "bp + sz - 8 = bp - 8 + sz"
  "bp + sz = bp - 8 + (sz + 8)"
  "bp + sz + 8 = bp - 8 + (sz + 16)"
  "bp = bp - 8 + 8"
  "bp + 8 = bp - 8 + 16"
  by (simp_all add: HDRP_def)

lemma offs_split:
  assumes "(32::64 word) \<le> sz" "sz \<le> avail" "32 \<le> avail - sz"
  shows "0 < avail" "sz - 8 < avail" "sz < avail" "sz + 8 < avail" "sz + 16 < avail" "avail - 8 < avail"
    "sz - 8 \<noteq> 0" "sz \<noteq> 0" "sz + 8 \<noteq> 0" "sz + 16 \<noteq> 0" "avail - 8 \<noteq> 0"
    "sz - 8 \<noteq> 8" "sz \<noteq> 8" "sz + 8 \<noteq> 8" "sz + 16 \<noteq> 8" "avail - 8 \<noteq> 8"
    "sz - 8 \<noteq> 16" "sz \<noteq> 16" "sz + 8 \<noteq> 16" "sz + 16 \<noteq> 16" "avail - 8 \<noteq> 16"
    "sz \<noteq> sz - 8" "sz + 8 \<noteq> sz - 8" "sz + 16 \<noteq> sz - 8" "avail - 8 \<noteq> sz - 8"
    "sz + 8 \<noteq> sz" "sz + 16 \<noteq> sz" "avail - 8 \<noteq> sz"
    "avail - 8 \<noteq> sz + 8" "avail - 8 \<noteq> sz + 16"
  using assms by unat_arith+

lemma offs_whole:
  assumes "(32::64 word) \<le> avail"
  shows "0 < avail" "avail - 8 < avail" "avail - 8 \<noteq> 0" "avail - 8 \<noteq> 8" "avail - 8 \<noteq> 16"
  using assms by unat_arith+

lemma GET_SIZE_PACK1: "aligned sz \<Longrightarrow> m p = PACK sz 1 \<Longrightarrow> GET_SIZE m p = sz"
  by (simp only: GET_SIZE_def GET_def PACK_def aligned_size1)

lemma GET_ALLOC_PACK1: "m p = PACK sz 1 \<Longrightarrow> GET_ALLOC m p = 1"
  by (simp add: GET_ALLOC_def GET_def PACK_def)

lemma GET_SIZE_PACK0: "aligned sz \<Longrightarrow> m p = PACK sz 0 \<Longrightarrow> GET_SIZE m p = sz"
  by (simp only: GET_SIZE_def GET_def PACK_def or.right_neutral aligned_size)

lemma GET_ALLOC_PACK0: "aligned sz \<Longrightarrow> m p = PACK sz 0 \<Longrightarrow> GET_ALLOC m p = 0"
  by (simp add: GET_ALLOC_def GET_def PACK_def aligned_alloc)

lemma GET_SIZE_aligned: "aligned (GET_SIZE m p)"
  by (simp only: GET_SIZE_def and_not15_aligned)

lemma EFL_distinct: "EFL s xs \<Longrightarrow> distinct xs"
  by (auto simp add: EFL_def dest: efl_distinct)

lemma EFL_aligned: "EFL s xs \<Longrightarrow> x \<in> set xs \<Longrightarrow> aligned x"
  by (simp add: EFL_def list_all_iff)

lemma setAllocated_whole:
  assumes efl: "EFL s xs" and bp: "bp \<in> set xs"
    and avail: "GET_SIZE (mem s) (HDRP bp) = avail"
    and sz: "32 \<le> avail"
    and clr: "clear_of bp avail xs"
    and nosplit: "\<not> PAGEOVERHEAD \<le> avail - sz"
  shows "EFL (setAllocated bp sz s) (remove1 bp xs)"
    and "mem (setAllocated bp sz s) (HDRP bp) = PACK avail 1"
    and "mem (setAllocated bp sz s) (bp + avail - 16) = PACK avail 1"
proof -
  define ch where "ch = bp - 8 + 0"
  define cf where "cf = bp - 8 + (avail - 8)"
  note o = offs_whole [OF sz]
  have al: "aligned avail" unfolding avail [symmetric] by (rule GET_SIZE_aligned)
  have hd: "HDRP bp = ch" by (simp add: ch_def HDRP_def)
  have ne: "ch \<noteq> cf" using o(3) by (simp add: ch_def cf_def)
  have f: "FTRP (PUT (mem s) ch (PACK avail 1)) bp = cf"
    using GET_SIZE_PACK1 [OF al, of "PUT (mem s) ch (PACK avail 1)" ch]
    by (simp add: FTRP_def PUT_def OVERHEAD_def hd cf_def)
  define m2 where "m2 = (mem s)(ch := PACK avail 1, cf := PACK avail 1)"
  have res: "setAllocated bp sz s = removeEFLNode bp (s\<lparr>mem := m2\<rparr>)"
    using nosplit avail by (simp add: setAllocated_def Let_def hd f) (simp add: PUT_def m2_def)
  have h: "ch \<notin> links xs"
    unfolding ch_def using clr o(1) by (rule clear_of_links) simp_all
  have ft: "cf \<notin> links xs"
    unfolding cf_def using clr o(2) o(4) o(5) by (rule clear_of_links)
  have m2: "m2 a = mem s a" if "a \<in> links xs" for a
    using that h ft by (auto simp add: m2_def)
  have e2: "EFL (s\<lparr>mem := m2\<rparr>) xs"
    using efl by (rule EFL_frame) (simp_all add: m2)
  show "EFL (setAllocated bp sz s) (remove1 bp xs)"
    unfolding res using e2 bp by (rule EFL_remove(1))
  have "mem (setAllocated bp sz s) ch = m2 ch"
    unfolding res using EFL_remove(2) [OF e2 bp h] by simp
  then show "mem (setAllocated bp sz s) (HDRP bp) = PACK avail 1"
    using ne by (simp add: hd m2_def)
  have "mem (setAllocated bp sz s) cf = m2 cf"
    unfolding res using EFL_remove(2) [OF e2 bp ft] by simp
  moreover have "bp + avail - 16 = cf" by (simp add: cf_def)
  ultimately show "mem (setAllocated bp sz s) (bp + avail - 16) = PACK avail 1"
    by (simp add: m2_def)
qed

lemma no_wrap_nonnull:
  "unat (bp::64 word) + unat (avail::64 word) \<le> 2 ^ 64 \<Longrightarrow> sz < avail \<Longrightarrow> sz \<noteq> 0 \<Longrightarrow> bp + sz \<noteq> 0"
proof
  assume a: "unat bp + unat avail \<le> 2 ^ 64" "sz < avail" "sz \<noteq> 0" and z: "bp + sz = 0"
  from a(2) have "unat sz < unat avail" by (simp add: word_less_nat_alt)
  with a(1) have "unat bp + unat sz < 2 ^ 64" by simp
  then have "unat (bp + sz) = unat bp + unat sz"
    using unat_add_lem [of bp sz] by simp
  with z have "unat sz = 0" by simp
  with a(3) show False by (simp add: unat_eq_0)
qed

subsection \<open>setAllocated\<close>

lemma setAllocated_split:
  assumes efl: "EFL s xs" and bp: "bp \<in> set xs"
    and avail: "GET_SIZE (mem s) (HDRP bp) = avail"
    and asz: "aligned sz" and sz: "32 \<le> sz" "sz \<le> avail"
    and clr: "clear_of bp avail xs"
    and nowrap: "unat bp + unat avail \<le> 2 ^ 64"
    and split: "PAGEOVERHEAD \<le> avail - sz"
  shows "EFL (setAllocated bp sz s) ((bp + sz) # remove1 bp xs)"
    and "mem (setAllocated bp sz s) (HDRP bp) = PACK sz 1"
    and "mem (setAllocated bp sz s) (bp + sz - 16) = PACK sz 1"
    and "mem (setAllocated bp sz s) (HDRP (bp + sz)) = PACK (avail - sz) 0"
    and "mem (setAllocated bp sz s) (bp + avail - 16) = PACK (avail - sz) 0"
proof -
  define ch where "ch = bp - 8 + 0"
  define cf1 where "cf1 = bp - 8 + (sz - 8)"
  define ch2 where "ch2 = bp - 8 + sz"
  define bp' where "bp' = bp - 8 + (sz + 8)"
  define bp'8 where "bp'8 = bp - 8 + (sz + 16)"
  define cf2 where "cf2 = bp - 8 + (avail - 8)"
  note cdefs = ch_def cf1_def ch2_def bp'_def bp'8_def cf2_def
  have sp: "32 \<le> avail - sz" using split by (simp add: PAGEOVERHEAD_def)
  note o = offs_split [OF sz sp]
  have al: "aligned avail" unfolding avail [symmetric] by (rule GET_SIZE_aligned)
  have arem: "aligned (avail - sz)" using al asz by (rule aligned_diff)
  have d: "distinct xs" using efl by (rule EFL_distinct)
  have hd: "HDRP bp = ch" by (simp add: ch_def HDRP_def)
  have bp'_eq: "bp + sz = bp'" by (simp add: bp'_def)
  have hd2: "HDRP bp' = ch2" by (simp add: bp'_def ch2_def HDRP_def)
  have bp'8_eq: "bp' + 8 = bp'8" by (simp add: bp'_def bp'8_def)
  have ne: "ch \<noteq> cf1" "ch \<noteq> ch2" "ch \<noteq> cf2" "ch \<noteq> bp'" "ch \<noteq> bp'8"
    "cf1 \<noteq> ch2" "cf1 \<noteq> cf2" "cf1 \<noteq> bp'" "cf1 \<noteq> bp'8"
    "ch2 \<noteq> cf2" "ch2 \<noteq> bp'" "ch2 \<noteq> bp'8"
    "cf2 \<noteq> bp'" "cf2 \<noteq> bp'8"
    unfolding cdefs cell_eq using o by simp_all
  have f1: "FTRP (PUT (mem s) ch (PACK sz 1)) bp = cf1"
    using GET_SIZE_PACK1 [OF asz, of "PUT (mem s) ch (PACK sz 1)" ch]
    by (simp add: FTRP_def PUT_def OVERHEAD_def hd cf1_def)
  define m2 where "m2 = (mem s)(ch := PACK sz 1, cf1 := PACK sz 1)"
  define s1 where "s1 = removeEFLNode bp (s\<lparr>mem := m2\<rparr>)"
  have h: "ch \<notin> links xs"
    unfolding ch_def using clr o(1) by (rule clear_of_links) simp_all
  have ft: "cf1 \<notin> links xs"
    unfolding cf1_def using clr o(2) o(12) o(17) by (rule clear_of_links)
  have m2: "m2 a = mem s a" if "a \<in> links xs" for a
    using that h ft by (auto simp add: m2_def)
  have e2: "EFL (s\<lparr>mem := m2\<rparr>) xs"
    using efl by (rule EFL_frame) (simp_all add: m2)
  have e1: "EFL s1 (remove1 bp xs)"
    unfolding s1_def using e2 bp by (rule EFL_remove(1))
  have s1_mem: "mem s1 a = m2 a" if "a \<notin> links xs" for a
    unfolding s1_def using EFL_remove(2) [OF e2 bp that] by simp
  have s1_ch: "mem s1 ch = PACK sz 1"
    using s1_mem [OF h] ne by (simp add: m2_def)
  have s1_cf1: "mem s1 cf1 = PACK sz 1"
    using s1_mem [OF ft] by (simp add: m2_def)
  have nb: "NEXT_BLKP (mem s1) bp = bp'"
    using GET_SIZE_PACK1 [where m = "mem s1" and p = ch, OF asz s1_ch] by (simp add: NEXT_BLKP_def hd bp'_eq)
  have f2: "FTRP (PUT (mem s1) ch2 (PACK (avail - sz) 0)) bp' = cf2"
    using GET_SIZE_PACK0 [OF arem, of "PUT (mem s1) ch2 (PACK (avail - sz) 0)" ch2]
    by (simp add: FTRP_def PUT_def OVERHEAD_def hd2) (simp add: bp'_def cf2_def)
  define m4 where "m4 = (mem s1)(ch2 := PACK (avail - sz) 0, cf2 := PACK (avail - sz) 0)"
  have res: "setAllocated bp sz s = addEFLNode bp' (s1\<lparr>mem := m4\<rparr>)"
    using split avail
    apply (simp add: setAllocated_def Let_def hd f1)
    apply (simp add: PUT_def m2_def [symmetric] s1_def [symmetric] nb hd2)
    apply (simp add: PUT_def [symmetric] f2)
    apply (simp add: PUT_def m4_def)
    done
  have o_ch2: "ch2 \<notin> links (remove1 bp xs)"
    unfolding ch2_def using clr o(3) d by (rule clear_of_links_others)
  have o_cf2: "cf2 \<notin> links (remove1 bp xs)"
    unfolding cf2_def using clr o(6) d by (rule clear_of_links_others)
  have o_ch: "ch \<notin> links (remove1 bp xs)"
    unfolding ch_def using clr o(1) d by (rule clear_of_links_others)
  have o_cf1: "cf1 \<notin> links (remove1 bp xs)"
    unfolding cf1_def using clr o(2) d by (rule clear_of_links_others)
  have o_bp': "bp' \<notin> links (remove1 bp xs)"
    unfolding bp'_def using clr o(4) d by (rule clear_of_links_others)
  have m4: "m4 a = mem s1 a" if "a \<in> links (remove1 bp xs)" for a
    using that o_ch2 o_cf2 by (auto simp add: m4_def)
  have e4: "EFL (s1\<lparr>mem := m4\<rparr>) (remove1 bp xs)"
    using e1 by (rule EFL_frame) (simp_all add: m4)
  have nin: "bp' \<notin> set (remove1 bp xs)"
    using o_bp' by (auto simp add: links_def)
  have nz: "bp' \<noteq> 0"
    unfolding bp'_eq [symmetric] using nowrap o(3) o(8) by (rule no_wrap_nonnull)
  have abp: "aligned bp'"
    unfolding bp'_eq [symmetric] using EFL_aligned [OF efl bp] asz by (rule aligned_add)
  show "EFL (setAllocated bp sz s) ((bp + sz) # remove1 bp xs)"
    unfolding res bp'_eq using e4 nin nz abp by (rule EFL_add(1))
  have fin: "mem (setAllocated bp sz s) a = m4 a"
    if "a \<noteq> bp'" "a \<noteq> bp'8" "a \<notin> links (remove1 bp xs)" for a
    unfolding res using EFL_add(2) [OF e4 nin nz abp, of a] that by (simp add: bp'8_eq)
  have "mem (setAllocated bp sz s) ch = PACK sz 1"
    using fin [OF ne(4) ne(5) o_ch] ne s1_ch by (simp add: m4_def)
  then show "mem (setAllocated bp sz s) (HDRP bp) = PACK sz 1"
    by (simp add: hd)
  have "mem (setAllocated bp sz s) cf1 = PACK sz 1"
    using fin [OF ne(8) ne(9) o_cf1] ne s1_cf1 by (simp add: m4_def)
  moreover have "bp + sz - 16 = cf1" by (simp add: cf1_def)
  ultimately show "mem (setAllocated bp sz s) (bp + sz - 16) = PACK sz 1"
    by simp
  have "mem (setAllocated bp sz s) ch2 = PACK (avail - sz) 0"
    using fin [OF ne(11) ne(12) o_ch2] ne by (simp add: m4_def)
  then show "mem (setAllocated bp sz s) (HDRP (bp + sz)) = PACK (avail - sz) 0"
    by (simp add: bp'_eq hd2)
  have "mem (setAllocated bp sz s) cf2 = PACK (avail - sz) 0"
    using fin [OF ne(13) ne(14) o_cf2] by (simp add: m4_def)
  moreover have "bp + avail - 16 = cf2" by (simp add: cf2_def)
  ultimately show "mem (setAllocated bp sz s) (bp + avail - 16) = PACK (avail - sz) 0"
    by simp
qed

lemma EFL_heap1: "EFL heap1 [0x10020]"
  by (simp add: EFL_def aligned_def heap1_def run_defs script_defs macro_defs Let_def)

subsection \<open>mm_free and coalesce\<close>

lemma coalesce_prov: "prov (snd (coalesce bp s)) = prov s"
  by (simp add: coalesce_def Let_def)

lemma coalesce_basePage: "basePage (snd (coalesce bp s)) = basePage s"
  by (simp add: coalesce_def Let_def)

lemma mark_free_fields [simp]:
  "prov (mark_free bp s) = prov s" "basePage (mark_free bp s) = basePage s"
  "nextFree (mark_free bp s) = nextFree s"
  by (simp_all add: mark_free_def Let_def)

lemma cell_neq:
  assumes "k1 < 2 ^ 64" "k2 < 2 ^ 64" "k1 \<noteq> k2"
  shows "cell lo k1 \<noteq> cell lo k2"
proof
  assume "cell lo k1 = cell lo k2"
  then have "(of_nat k1 :: 64 word) = of_nat k2" by (simp add: cell_def)
  then have "unat (of_nat k1 :: 64 word) = unat (of_nat k2 :: 64 word)" by simp
  then have "k1 mod 2 ^ 64 = k2 mod 2 ^ 64" by (simp add: unat_of_nat)
  with assms show False by simp
qed

lemma cell_in_range:
  assumes "k < unat len"
  shows "in_range lo len (cell lo k)"
proof -
  have "unat len < 2 ^ 64" using unsigned_less [of len] by simp
  with assms have "k < 2 ^ 64" by simp
  then have "unat (of_nat k :: 64 word) = k" by (simp add: unat_of_nat)
  with assms have "(of_nat k :: 64 word) < len" by (simp add: word_less_nat_alt)
  then show ?thesis by (simp add: in_range_def cell_def)
qed

lemma unat_sum3:
  assumes "unat (p::64 word) + unat (b::64 word) + unat (n::64 word) + 16 < 2 ^ 64"
  shows "unat (p + b + n + 16) = unat p + unat b + unat n + 16"
proof -
  have 1: "unat (p + b) = unat p + unat b"
    using assms unat_add_lem [of p b] by simp
  have 2: "unat (p + b + n) = unat p + unat b + unat n"
    using assms unat_add_lem [of "p + b" n] 1 by simp
  show ?thesis
    using assms unat_add_lem [of "p + b + n" 16] 2 by simp
qed

lemma of_nat_unat64 [simp]: "(of_nat (unat (w::64 word)) :: 64 word) = w"
  by simp

lemma span_addresses:
  fixes bp szP szb szN :: "64 word"
  defines "lo \<equiv> bp - szP - 16"
  shows "cell lo 0 = bp - szP - 16"
    and "cell lo 8 = bp - szP - 8"
    and "cell lo 16 = bp - szP"
    and "cell lo 24 = bp - szP + 8"
    and "cell lo (unat szP) = bp - 16"
    and "cell lo (unat szP + 8) = bp - 8"
    and "cell lo (unat szP + 16) = bp"
    and "cell lo (unat szP + 24) = bp + 8"
    and "cell lo (unat szP + unat szb) = bp + szb - 16"
    and "cell lo (unat szP + unat szb + 8) = bp + szb - 8"
    and "cell lo (unat szP + unat szb + 16) = bp + szb"
    and "cell lo (unat szP + unat szb + 24) = bp + szb + 8"
    and "cell lo (unat szP + unat szb + unat szN) = bp + szb + szN - 16"
    and "cell lo (unat szP + unat szb + unat szN + 8) = bp + szb + szN - 8"
  by (simp_all add: cell_def lo_def)

lemma span_cell_not_link:
  assumes pre: "coalescible s bp xs szP szb szN pa na"
    and k: "k < unat szP + unat szb + unat szN + 16"
    and sub: "set L \<subseteq> set xs"
    and P: "bp - szP \<in> set L \<Longrightarrow> k \<noteq> 16 \<and> k \<noteq> 24"
    and N: "bp + szb \<in> set L \<Longrightarrow> k \<noteq> unat szP + unat szb + 16 \<and> k \<noteq> unat szP + unat szb + 24"
  shows "cell (bp - szP - 16) k \<notin> links L"
proof
  let ?lo = "bp - szP - 16"
  let ?len = "szP + szb + szN + 16"
  assume "cell ?lo k \<in> links L"
  then obtain x where x: "x \<in> set L" "cell ?lo k = x \<or> cell ?lo k = x + 8"
    by (auto simp add: links_def)
  from pre have nw: "unat szP + unat szb + unat szN + 16 < 2 ^ 64"
    and clr: "list_all (\<lambda>x. x = bp - szP \<or> x = bp + szb
             \<or> (\<not> in_range ?lo ?len x \<and> \<not> in_range ?lo ?len (x + 8))) xs"
    and b32: "32 \<le> szb"
    by (simp_all add: coalescible_def OVERHEAD_def)
  have k64: "k < 2 ^ 64" using k nw by simp
  have ul: "unat ?len = unat szP + unat szb + unat szN + 16"
    using nw by (rule unat_sum3)
  have inr: "in_range ?lo ?len (cell ?lo k)"
    by (rule cell_in_range) (simp add: ul k)
  have ub: "32 \<le> unat szb" using b32 by (simp add: word_le_nat_alt)
  consider "x = bp - szP" | "x = bp + szb" | "x \<noteq> bp - szP" "x \<noteq> bp + szb" by blast
  then show False
  proof cases
    case 1
    with x(1) P have kk: "k \<noteq> 16" "k \<noteq> 24" by simp_all
    have "cell ?lo k \<noteq> cell ?lo 16" "cell ?lo k \<noteq> cell ?lo 24"
      using k64 kk by (simp_all add: cell_neq)
    with x(2) 1 show False
      using span_addresses(3,4) [where bp = bp and szP = szP] by metis
  next
    case 2
    with x(1) N have kk: "k \<noteq> unat szP + unat szb + 16" "k \<noteq> unat szP + unat szb + 24" by simp_all
    from 2 x(1) sub have "bp + szb \<in> set xs" by auto
    with pre have "32 \<le> szN" by (auto simp add: coalescible_def split: if_splits)
    then have "32 \<le> unat szN" by (simp add: word_le_nat_alt)
    with nw have "unat szP + unat szb + 24 < 2 ^ 64" by simp
    then have "cell ?lo k \<noteq> cell ?lo (unat szP + unat szb + 16)"
      "cell ?lo k \<noteq> cell ?lo (unat szP + unat szb + 24)"
      using k64 kk by (simp_all add: cell_neq)
    with x(2) 2 show False
      using span_addresses(11,12) [where bp = bp and szP = szP and szb = szb] by metis
  next
    case 3
    from x(1) sub have "x \<in> set xs" by auto
    with clr 3 have "\<not> in_range ?lo ?len x \<and> \<not> in_range ?lo ?len (x + 8)"
      by (auto simp add: list_all_iff)
    with inr x(2) show False by metis
  qed
qed

lemma coalesce_reads:
  assumes "coalescible s bp xs szP szb szN pa na"
  shows "PREV_BLKP (mem s) bp = bp - szP"
    and "FTRP (mem s) (bp - szP) = bp - OVERHEAD"
    and "NEXT_BLKP (mem s) bp = bp + szb"
    and "GET_ALLOC (mem s) (FTRP (mem s) (PREV_BLKP (mem s) bp)) = pa"
    and "GET_ALLOC (mem s) (HDRP (NEXT_BLKP (mem s) bp)) = na"
proof -
  from assms have f: "GET_SIZE (mem s) (HDRP bp) = szb"
    "GET_SIZE (mem s) (bp - OVERHEAD) = szP" "GET_SIZE (mem s) (HDRP (bp - szP)) = szP"
    "GET_ALLOC (mem s) (bp - OVERHEAD) = pa" "GET_ALLOC (mem s) (HDRP (bp + szb)) = na"
    by (simp_all add: coalescible_def)
  show 1: "PREV_BLKP (mem s) bp = bp - szP" by (simp add: PREV_BLKP_def f)
  show 2: "FTRP (mem s) (bp - szP) = bp - OVERHEAD" by (simp add: FTRP_def f)
  show 3: "NEXT_BLKP (mem s) bp = bp + szb" by (simp add: NEXT_BLKP_def f)
  show "GET_ALLOC (mem s) (FTRP (mem s) (PREV_BLKP (mem s) bp)) = pa" by (simp add: 1 2 f)
  show "GET_ALLOC (mem s) (HDRP (NEXT_BLKP (mem s) bp)) = na" by (simp add: 3 f)
qed

lemma GET_ALLOC_cong: "m' p = m p \<Longrightarrow> GET_ALLOC m' p = GET_ALLOC m p"
  by (simp add: GET_ALLOC_def GET_def)

lemma GET_SIZE_cong: "m' p = m p \<Longrightarrow> GET_SIZE m' p = GET_SIZE m p"
  by (simp add: GET_SIZE_def GET_def)

lemma cell_neq_addr:
  "cell lo k2 = a \<Longrightarrow> k1 < 2 ^ 64 \<Longrightarrow> k2 < 2 ^ 64 \<Longrightarrow> k1 \<noteq> k2 \<Longrightarrow> cell lo k1 \<noteq> a"
  using cell_neq by blast

lemma coalesce_case1:
  assumes pre: "coalescible s bp xs szP szb szN pa na" and c: "pa \<noteq> 0" "na \<noteq> 0"
  shows "coalesce bp s = (bp, addEFLNode bp s)"
    and "EFL (addEFLNode bp s) (bp # xs)"
    and "GET_SIZE (mem (addEFLNode bp s)) (HDRP bp) = szb"
    and "GET_ALLOC (mem (addEFLNode bp s)) (bp - OVERHEAD) \<noteq> 0"
    and "GET_ALLOC (mem (addEFLNode bp s)) (HDRP (NEXT_BLKP (mem (addEFLNode bp s)) bp)) \<noteq> 0"
proof -
  let ?lo = "bp - szP - 16"
  let ?s' = "addEFLNode bp s"
  note r = coalesce_reads [OF pre]
  from pre have efl: "EFL s xs" and nin: "bp \<notin> set xs" and nz: "bp \<noteq> 0" and al: "aligned bp"
    and b32: "32 \<le> szb" and nw: "unat szP + unat szb + unat szN + 16 < 2 ^ 64"
    and gs: "GET_SIZE (mem s) (HDRP bp) = szb"
    and ga: "GET_ALLOC (mem s) (bp - OVERHEAD) = pa" "GET_ALLOC (mem s) (HDRP (bp + szb)) = na"
    by (simp_all add: coalescible_def)
  from pre c have PN: "bp - szP \<notin> set xs" "bp + szb \<notin> set xs"
    by (simp_all add: coalescible_def)
  have ub: "32 \<le> unat szb" using b32 by (simp add: word_le_nat_alt)
  show "coalesce bp s = (bp, ?s')"
    using c by (simp add: coalesce_def Let_def r ga)
  show "EFL ?s' (bp # xs)"
    using efl nin nz al by (rule EFL_add(1))
  have keep: "mem ?s' (cell ?lo k) = mem s (cell ?lo k)"
    if "k < unat szP + unat szb + unat szN + 16" "k \<noteq> unat szP + 16" "k \<noteq> unat szP + 24" for k
  proof (rule EFL_add(2) [OF efl nin nz al])
    have k64: "k < 2 ^ 64" "unat szP + 16 < 2 ^ 64" "unat szP + 24 < 2 ^ 64"
      using that(1) nw ub by simp_all
    show "cell ?lo k \<noteq> bp"
      by (rule cell_neq_addr [OF span_addresses(7)]) (use k64 that in simp_all)
    show "cell ?lo k \<noteq> bp + 8"
      by (rule cell_neq_addr [OF span_addresses(8)]) (use k64 that in simp_all)
    show "cell ?lo k \<notin> links xs"
      using pre that(1) by (rule span_cell_not_link) (use PN in simp_all)
  qed
  have "mem ?s' (cell ?lo (unat szP + 8)) = mem s (cell ?lo (unat szP + 8))"
    by (rule keep) (use ub in simp_all)
  then have h: "mem ?s' (HDRP bp) = mem s (HDRP bp)"
    by (simp only: span_addresses HDRP_def)
  then have "GET_SIZE (mem ?s') (HDRP bp) = GET_SIZE (mem s) (HDRP bp)"
    by (rule GET_SIZE_cong)
  then show gs': "GET_SIZE (mem ?s') (HDRP bp) = szb"
    using gs by simp
  have "mem ?s' (cell ?lo (unat szP)) = mem s (cell ?lo (unat szP))"
    by (rule keep) (use ub in simp_all)
  then have "mem ?s' (bp - 16) = mem s (bp - 16)"
    by (simp only: span_addresses)
  then have "GET_ALLOC (mem ?s') (bp - 16) = GET_ALLOC (mem s) (bp - 16)"
    by (rule GET_ALLOC_cong)
  then show "GET_ALLOC (mem ?s') (bp - OVERHEAD) \<noteq> 0"
    using ga(1) c(1) by (simp add: OVERHEAD_def)
  have "mem ?s' (cell ?lo (unat szP + unat szb + 8)) = mem s (cell ?lo (unat szP + unat szb + 8))"
    by (rule keep) (use ub in simp_all)
  then have "mem ?s' (bp + szb - 8) = mem s (bp + szb - 8)"
    by (simp only: span_addresses)
  then have "GET_ALLOC (mem ?s') (bp + szb - 8) = GET_ALLOC (mem s) (bp + szb - 8)"
    by (rule GET_ALLOC_cong)
  then show "GET_ALLOC (mem ?s') (HDRP (NEXT_BLKP (mem ?s') bp)) \<noteq> 0"
    using ga(2) c(2) by (simp add: NEXT_BLKP_def gs' [unfolded HDRP_def] HDRP_def)
qed

lemma coalescible_sizes:
  assumes "coalescible s bp xs szP szb szN pa na"
  shows "aligned szP" "aligned szb" "aligned szN" "32 \<le> unat szb"
    "pa = 0 \<Longrightarrow> 32 \<le> unat szP" "na = 0 \<Longrightarrow> 32 \<le> unat szN"
    "unat szP + unat szb + unat szN + 16 < 2 ^ 64"
proof -
  from assms have f: "GET_SIZE (mem s) (HDRP bp) = szb"
    "GET_SIZE (mem s) (bp - OVERHEAD) = szP" "GET_SIZE (mem s) (HDRP (bp + szb)) = szN"
    by (simp_all add: coalescible_def)
  show "aligned szP" "aligned szb" "aligned szN"
    using GET_SIZE_aligned [of "mem s" "HDRP bp"] GET_SIZE_aligned [of "mem s" "bp - OVERHEAD"]
      GET_SIZE_aligned [of "mem s" "HDRP (bp + szb)"] f by simp_all
  from assms show "32 \<le> unat szb" by (simp add: coalescible_def word_le_nat_alt)
  from assms show "pa = 0 \<Longrightarrow> 32 \<le> unat szP" by (simp add: coalescible_def word_le_nat_alt)
  from assms show "na = 0 \<Longrightarrow> 32 \<le> unat szN" by (simp add: coalescible_def word_le_nat_alt)
  from assms show "unat szP + unat szb + unat szN + 16 < 2 ^ 64" by (simp add: coalescible_def)
qed

lemma coalesce_case3:
  assumes pre: "coalescible s bp xs szP szb szN pa na" and c: "pa = 0" "na \<noteq> 0"
  defines "s' \<equiv> snd (coalesce bp s)"
  shows "fst (coalesce bp s) = bp - szP"
    and "EFL s' xs"
    and "mem s' (HDRP (bp - szP)) = PACK (szb + szP) 0"
    and "mem s' (bp + szb - 16) = PACK (szb + szP) 0"
    and "GET_ALLOC (mem s') (bp - szP - OVERHEAD) \<noteq> 0"
    and "GET_ALLOC (mem s') (HDRP (bp + szb)) \<noteq> 0"
proof -
  let ?lo = "bp - szP - 16"
  let ?v = "PACK (szb + szP) 0"
  define cf where "cf = cell ?lo (unat szP + unat szb)"
  define ch where "ch = cell ?lo 8"
  define cq where "cq = cell ?lo (unat szP)"
  note r = coalesce_reads [OF pre]
  note z = coalescible_sizes [OF pre]
  from pre have efl: "EFL s xs"
    and gs: "GET_SIZE (mem s) (HDRP bp) = szb" "GET_SIZE (mem s) (bp - OVERHEAD) = szP"
      "GET_SIZE (mem s) (HDRP (bp - szP)) = szP" "GET_SIZE (mem s) (HDRP (bp + szb)) = szN"
    and ga: "GET_ALLOC (mem s) (bp - OVERHEAD) = pa" "GET_ALLOC (mem s) (HDRP (bp + szb)) = na"
    by (simp_all add: coalescible_def)
  from pre c have P: "GET_ALLOC (mem s) (bp - szP - OVERHEAD) \<noteq> 0"
    and N: "bp + szb \<notin> set xs"
    by (simp_all add: coalescible_def)
  have a: "32 \<le> unat szP" using z(5) c(1) .
  have cf_eq: "bp + szb - 16 = cf" by (simp add: cf_def span_addresses(9))
  have ch_eq: "bp - szP - 8 = ch" by (simp add: ch_def span_addresses(2))
  have cq_eq: "bp - 16 = cq" by (simp add: cq_def span_addresses(5))
  have ne: "cq \<noteq> cf" "cq \<noteq> ch" "cf \<noteq> ch"
    unfolding cf_def ch_def cq_def using a z(4,7) by (simp_all add: cell_neq)
  have f1: "FTRP (mem s) bp = cf"
    by (simp add: FTRP_def gs OVERHEAD_def cf_eq)
  have p1: "PREV_BLKP (PUT (mem s) cf ?v) bp = bp - szP"
    using gs(2) ne(1) by (simp add: PREV_BLKP_def GET_SIZE_def GET_def PUT_def OVERHEAD_def cq_eq)
  have hp: "HDRP (bp - szP) = ch"
    by (simp add: HDRP_def ch_eq)
  have p2: "PREV_BLKP (PUT (PUT (mem s) cf ?v) ch ?v) bp = bp - szP"
    using gs(2) ne by (simp add: PREV_BLKP_def GET_SIZE_def GET_def PUT_def OVERHEAD_def cq_eq)
  have res: "coalesce bp s = (bp - szP, s\<lparr>mem := (mem s)(cf := ?v, ch := ?v)\<rparr>)"
    using c by (simp add: coalesce_def Let_def r ga gs gs(3) [unfolded hp] f1 p1 hp p2)
      (simp add: PUT_def)
  show "fst (coalesce bp s) = bp - szP" by (simp add: res)
  have s': "s' = s\<lparr>mem := (mem s)(cf := ?v, ch := ?v)\<rparr>" by (simp add: s'_def res)
  have l1: "cf \<notin> links xs"
    unfolding cf_def using pre by (rule span_cell_not_link) (use a z N in simp_all)
  have l2: "ch \<notin> links xs"
    unfolding ch_def using pre by (rule span_cell_not_link) (use a z N in simp_all)
  show "EFL s' xs"
    using efl by (rule EFL_frame) (use l1 l2 in \<open>auto simp add: s'\<close>)
  show "mem s' (HDRP (bp - szP)) = ?v" by (simp add: s' hp)
  show "mem s' (bp + szb - 16) = ?v" using ne by (simp add: s' cf_eq)
  have "cell ?lo 0 \<noteq> cf" "cell ?lo 0 \<noteq> ch"
    unfolding cf_def ch_def using a z(4,7) by (simp_all add: cell_neq)
  then have "mem s' (bp - szP - 16) = mem s (bp - szP - 16)"
    by (simp add: s' span_addresses(1))
  then have "GET_ALLOC (mem s') (bp - szP - 16) = GET_ALLOC (mem s) (bp - szP - 16)"
    by (rule GET_ALLOC_cong)
  then show "GET_ALLOC (mem s') (bp - szP - OVERHEAD) \<noteq> 0"
    using P by (simp add: OVERHEAD_def)
  have "cell ?lo (unat szP + unat szb + 8) \<noteq> cf" "cell ?lo (unat szP + unat szb + 8) \<noteq> ch"
    unfolding cf_def ch_def using a z(4,7) by (simp_all add: cell_neq)
  then have "mem s' (bp + szb - 8) = mem s (bp + szb - 8)"
    by (simp add: s' span_addresses(10))
  then have "GET_ALLOC (mem s') (bp + szb - 8) = GET_ALLOC (mem s) (bp + szb - 8)"
    by (rule GET_ALLOC_cong)
  then show "GET_ALLOC (mem s') (HDRP (bp + szb)) \<noteq> 0"
    using ga(2) c(2) by (simp add: HDRP_def)
qed

lemma remove_next_keeps:
  assumes pre: "coalescible s bp xs szP szb szN pa na" and c: "na = 0"
    and k: "k < unat szP + unat szb + unat szN + 16"
      "pa = 0 \<Longrightarrow> k \<noteq> 16 \<and> k \<noteq> 24"
      "k \<noteq> unat szP + unat szb + 16" "k \<noteq> unat szP + unat szb + 24"
  shows "mem (removeEFLNode (bp + szb) s) (cell (bp - szP - 16) k) = mem s (cell (bp - szP - 16) k)"
proof -
  from pre c have efl: "EFL s xs" and N: "bp + szb \<in> set xs"
    by (simp_all add: coalescible_def)
  have P: "bp - szP \<in> set xs \<Longrightarrow> pa = 0"
    using pre by (auto simp add: coalescible_def split: if_splits)
  have "cell (bp - szP - 16) k \<notin> links xs"
    using pre k(1) by (rule span_cell_not_link) (use k P in auto)
  with efl N show ?thesis by (rule EFL_remove(2))
qed

lemma coalesce_case2:
  assumes pre: "coalescible s bp xs szP szb szN pa na" and c: "pa \<noteq> 0" "na = 0"
  defines "s' \<equiv> snd (coalesce bp s)"
  shows "fst (coalesce bp s) = bp"
    and "EFL s' (bp # remove1 (bp + szb) xs)"
    and "mem s' (HDRP bp) = PACK (szb + szN) 0"
    and "mem s' (bp + szb + szN - 16) = PACK (szb + szN) 0"
    and "GET_ALLOC (mem s') (bp - OVERHEAD) \<noteq> 0"
    and "GET_ALLOC (mem s') (HDRP (bp + szb + szN)) \<noteq> 0"
proof -
  let ?lo = "bp - szP - 16"
  let ?v = "PACK (szb + szN) 0"
  let ?N = "bp + szb"
  define ch where "ch = cell ?lo (unat szP + 8)"
  define cf where "cf = cell ?lo (unat szP + unat szb + unat szN)"
  define s1 where "s1 = removeEFLNode ?N s"
  note r = coalesce_reads [OF pre]
  note z = coalescible_sizes [OF pre]
  from pre have efl: "EFL s xs" and nin: "bp \<notin> set xs" and nz: "bp \<noteq> 0" and al: "aligned bp"
    and gs: "GET_SIZE (mem s) (HDRP bp) = szb" "GET_SIZE (mem s) (bp - OVERHEAD) = szP"
      "GET_SIZE (mem s) (HDRP (bp - szP)) = szP" "GET_SIZE (mem s) (HDRP (bp + szb)) = szN"
    and ga: "GET_ALLOC (mem s) (bp - OVERHEAD) = pa" "GET_ALLOC (mem s) (HDRP (bp + szb)) = na"
    by (simp_all add: coalescible_def)
  from pre c have N: "?N \<in> set xs" "GET_ALLOC (mem s) (HDRP (bp + szb + szN)) \<noteq> 0"
    and P: "bp - szP \<notin> set xs"
    by (simp_all add: coalescible_def)
  have cn: "32 \<le> unat szN" using z(6) c(2) .
  have d: "distinct xs" using efl by (rule EFL_distinct)
  have asz: "aligned (szb + szN)" using z(2,3) by (rule aligned_add)
  have ch_eq: "bp - 8 = ch" by (simp add: ch_def span_addresses(6))
  have cf_eq: "bp + szb + szN - 16 = cf" by (simp add: cf_def span_addresses(13))
  have ne: "ch \<noteq> cf"
    unfolding cf_def ch_def using cn z(4,7) by (simp add: cell_neq)
  have e1: "EFL s1 (remove1 ?N xs)"
    unfolding s1_def using efl N(1) by (rule EFL_remove(1))
  have keep1: "mem s1 (cell ?lo k) = mem s (cell ?lo k)"
    if "k < unat szP + unat szb + unat szN + 16"
      "k \<noteq> unat szP + unat szb + 16" "k \<noteq> unat szP + unat szb + 24" for k
    unfolding s1_def using pre c(2) that(1) _ that(2,3) by (rule remove_next_keeps) (use c in simp)
  have f1: "FTRP (PUT (mem s1) ch ?v) bp = cf"
    using GET_SIZE_PACK0 [OF asz, of "PUT (mem s1) ch ?v" ch]
    by (simp add: FTRP_def HDRP_def ch_eq PUT_def OVERHEAD_def) (simp add: cf_eq [symmetric])
  have res: "coalesce bp s = (bp, addEFLNode bp (s1\<lparr>mem := (mem s1)(ch := ?v, cf := ?v)\<rparr>))"
    using c by (simp add: coalesce_def Let_def r ga gs s1_def [symmetric])
      (simp add: HDRP_def ch_eq f1 [unfolded HDRP_def], simp add: PUT_def)
  show "fst (coalesce bp s) = bp" by (simp add: res)
  let ?s2 = "s1\<lparr>mem := (mem s1)(ch := ?v, cf := ?v)\<rparr>"
  have s': "s' = addEFLNode bp ?s2" by (simp add: s'_def res)
  have notin: "cell ?lo k \<notin> links (remove1 ?N xs)"
    if "k < unat szP + unat szb + unat szN + 16" for k
    using pre that by (rule span_cell_not_link) (use P d in auto)
  have l1: "ch \<notin> links (remove1 ?N xs)" unfolding ch_def by (rule notin) (use z in simp)
  have l2: "cf \<notin> links (remove1 ?N xs)" unfolding cf_def by (rule notin) (use z in simp)
  have e2: "EFL ?s2 (remove1 ?N xs)"
    using e1 by (rule EFL_frame) (use l1 l2 in auto)
  have nin2: "bp \<notin> set (remove1 ?N xs)" using nin by (auto dest: notin_set_remove1)
  show "EFL s' (bp # remove1 ?N xs)"
    unfolding s' using e2 nin2 nz al by (rule EFL_add(1))
  have keep2: "mem s' (cell ?lo k) = mem ?s2 (cell ?lo k)"
    if "k < unat szP + unat szb + unat szN + 16" "k \<noteq> unat szP + 16" "k \<noteq> unat szP + 24" for k
    unfolding s'
  proof (rule EFL_add(2) [OF e2 nin2 nz al])
    have k64: "k < 2 ^ 64" "unat szP + 16 < 2 ^ 64" "unat szP + 24 < 2 ^ 64"
      using that(1) z by simp_all
    show "cell ?lo k \<noteq> bp"
      by (rule cell_neq_addr [OF span_addresses(7)]) (use k64 that in simp_all)
    show "cell ?lo k \<noteq> bp + 8"
      by (rule cell_neq_addr [OF span_addresses(8)]) (use k64 that in simp_all)
    show "cell ?lo k \<notin> links (remove1 ?N xs)"
      using that(1) by (rule notin)
  qed
  have "mem s' ch = ?v"
    unfolding ch_def using keep2 [of "unat szP + 8"] z ne by (simp add: ch_def)
  then show "mem s' (HDRP bp) = ?v" by (simp add: HDRP_def ch_eq)
  have "mem s' cf = ?v"
    unfolding cf_def using keep2 [of "unat szP + unat szb + unat szN"] z cn by (simp add: cf_def)
  then show "mem s' (bp + szb + szN - 16) = ?v" by (simp add: cf_eq)
  have q: "cell ?lo (unat szP) \<noteq> ch" "cell ?lo (unat szP) \<noteq> cf"
    unfolding cf_def ch_def using cn z(4,7) by (simp_all add: cell_neq)
  have "mem s' (cell ?lo (unat szP)) = mem s (cell ?lo (unat szP))"
    using keep2 [of "unat szP"] keep1 [of "unat szP"] z q by simp
  then have "mem s' (bp - 16) = mem s (bp - 16)" by (simp only: span_addresses(5))
  then have "GET_ALLOC (mem s') (bp - 16) = GET_ALLOC (mem s) (bp - 16)"
    by (rule GET_ALLOC_cong)
  then show "GET_ALLOC (mem s') (bp - OVERHEAD) \<noteq> 0"
    using ga(1) c(1) by (simp add: OVERHEAD_def)
  let ?k = "unat szP + unat szb + unat szN + 8"
  have q2: "cell ?lo ?k \<noteq> ch" "cell ?lo ?k \<noteq> cf"
    unfolding cf_def ch_def using cn z(4,7) by (simp_all add: cell_neq)
  have "mem s' (cell ?lo ?k) = mem s (cell ?lo ?k)"
    using keep2 [of ?k] keep1 [of ?k] z cn q2 by simp
  then have "mem s' (bp + szb + szN - 8) = mem s (bp + szb + szN - 8)"
    by (simp only: span_addresses(14))
  then have "GET_ALLOC (mem s') (bp + szb + szN - 8) = GET_ALLOC (mem s) (bp + szb + szN - 8)"
    by (rule GET_ALLOC_cong)
  then show "GET_ALLOC (mem s') (HDRP (bp + szb + szN)) \<noteq> 0"
    using N(2) by (simp add: HDRP_def)
qed

lemma coalesce_case4:
  assumes pre: "coalescible s bp xs szP szb szN pa na" and c: "pa = 0" "na = 0"
  defines "s' \<equiv> snd (coalesce bp s)"
  shows "fst (coalesce bp s) = bp - szP"
    and "EFL s' (remove1 (bp + szb) xs)"
    and "bp - szP \<in> set (remove1 (bp + szb) xs)"
    and "mem s' (HDRP (bp - szP)) = PACK (szb + szP + szN) 0"
    and "mem s' (bp + szb + szN - 16) = PACK (szb + szP + szN) 0"
    and "GET_ALLOC (mem s') (bp - szP - OVERHEAD) \<noteq> 0"
    and "GET_ALLOC (mem s') (HDRP (bp + szb + szN)) \<noteq> 0"
proof -
  let ?lo = "bp - szP - 16"
  let ?v = "PACK (szb + szP + szN) 0"
  let ?N = "bp + szb"
  let ?P = "bp - szP"
  define ch where "ch = cell ?lo 8"
  define cf where "cf = cell ?lo (unat szP + unat szb + unat szN)"
  define cq where "cq = cell ?lo (unat szP)"
  define s1 where "s1 = removeEFLNode ?N s"
  note r = coalesce_reads [OF pre]
  note z = coalescible_sizes [OF pre]
  from pre have efl: "EFL s xs"
    and gs: "GET_SIZE (mem s) (HDRP bp) = szb" "GET_SIZE (mem s) (bp - OVERHEAD) = szP"
      "GET_SIZE (mem s) (HDRP (bp - szP)) = szP" "GET_SIZE (mem s) (HDRP (bp + szb)) = szN"
    and ga: "GET_ALLOC (mem s) (bp - OVERHEAD) = pa" "GET_ALLOC (mem s) (HDRP (bp + szb)) = na"
    by (simp_all add: coalescible_def)
  from pre c have N: "?N \<in> set xs" "GET_ALLOC (mem s) (HDRP (bp + szb + szN)) \<noteq> 0"
    and P: "?P \<in> set xs" "GET_ALLOC (mem s) (bp - szP - OVERHEAD) \<noteq> 0"
    by (simp_all add: coalescible_def)
  have a: "32 \<le> unat szP" using z(5) c(1) .
  have cn: "32 \<le> unat szN" using z(6) c(2) .
  have d: "distinct xs" using efl by (rule EFL_distinct)
  have asz: "aligned (szb + szP + szN)"
    using z(1,2,3) by (simp add: aligned_add)
  have ch_eq: "bp - szP - 8 = ch" by (simp add: ch_def span_addresses(2))
  have cf_eq: "bp + szb + szN - 16 = cf" by (simp add: cf_def span_addresses(13))
  have cq_eq: "bp - 16 = cq" by (simp add: cq_def span_addresses(5))
  have ne: "ch \<noteq> cf" "cq \<noteq> ch" "cq \<noteq> cf"
    unfolding cf_def ch_def cq_def using a cn z(4,7) by (simp_all add: cell_neq)
  have "cell ?lo 16 \<noteq> ?N"
    by (rule cell_neq_addr [OF span_addresses(11)]) (use z(4,7) in simp_all)
  then have PN: "?P \<noteq> ?N"
    using span_addresses(3) [where bp = bp and szP = szP] by metis
  show "?P \<in> set (remove1 ?N xs)" using P(1) PN by simp
  have e1: "EFL s1 (remove1 ?N xs)"
    unfolding s1_def using efl N(1) by (rule EFL_remove(1))
  have keep1: "mem s1 (cell ?lo k) = mem s (cell ?lo k)"
    if "k < unat szP + unat szb + unat szN + 16" "k \<noteq> 16" "k \<noteq> 24"
      "k \<noteq> unat szP + unat szb + 16" "k \<noteq> unat szP + unat szb + 24" for k
    unfolding s1_def using pre c(2) that(1) _ that(4,5) by (rule remove_next_keeps) (use that in simp)
  have q1: "mem s1 cq = mem s cq"
    unfolding cq_def by (rule keep1) (use a z in simp_all)
  have gq: "GET_SIZE (mem s1) (bp - 16) = szP"
    using GET_SIZE_cong [where m' = "mem s1" and m = "mem s" and p = cq, OF q1] gs(2)
    by (simp add: cq_eq OVERHEAD_def)
  have p1: "PREV_BLKP (mem s1) bp = ?P"
    by (simp add: PREV_BLKP_def OVERHEAD_def gq)
  have hp: "HDRP ?P = ch" by (simp add: HDRP_def ch_eq)
  have p2: "PREV_BLKP (PUT (mem s1) ch ?v) bp = ?P"
    using gq ne by (simp add: PREV_BLKP_def GET_SIZE_def GET_def PUT_def OVERHEAD_def cq_eq)
  have f1: "FTRP (PUT (mem s1) ch ?v) ?P = cf"
    using GET_SIZE_PACK0 [OF asz, of "PUT (mem s1) ch ?v" ch]
    by (simp add: FTRP_def hp PUT_def OVERHEAD_def) (simp add: cf_eq [symmetric])
  have p3: "PREV_BLKP (PUT (PUT (mem s1) ch ?v) cf ?v) bp = ?P"
    using gq ne by (simp add: PREV_BLKP_def GET_SIZE_def GET_def PUT_def OVERHEAD_def cq_eq)
  have res: "coalesce bp s = (?P, s1\<lparr>mem := (mem s1)(ch := ?v, cf := ?v)\<rparr>)"
    using c
    by (simp add: coalesce_def Let_def r ga gs gs(3) [unfolded hp] s1_def [symmetric] p1 hp p2 f1 p3)
      (simp add: PUT_def)
  show "fst (coalesce bp s) = ?P" by (simp add: res)
  have s': "s' = s1\<lparr>mem := (mem s1)(ch := ?v, cf := ?v)\<rparr>" by (simp add: s'_def res)
  have notin: "cell ?lo k \<notin> links (remove1 ?N xs)"
    if "k < unat szP + unat szb + unat szN + 16" "k \<noteq> 16" "k \<noteq> 24" for k
    using pre that(1) by (rule span_cell_not_link) (use that d in auto)
  have l1: "ch \<notin> links (remove1 ?N xs)" unfolding ch_def by (rule notin) (use z in simp_all)
  have l2: "cf \<notin> links (remove1 ?N xs)" unfolding cf_def by (rule notin) (use a z in simp_all)
  show "EFL s' (remove1 ?N xs)"
    using e1 by (rule EFL_frame) (use l1 l2 in \<open>auto simp add: s'\<close>)
  show "mem s' (HDRP ?P) = ?v" using ne by (simp add: s' hp)
  show "mem s' (bp + szb + szN - 16) = ?v" by (simp add: s' cf_eq)
  have q: "cell ?lo 0 \<noteq> ch" "cell ?lo 0 \<noteq> cf"
    unfolding cf_def ch_def using a cn z(4,7) by (simp_all add: cell_neq)
  have "mem s' (cell ?lo 0) = mem s (cell ?lo 0)"
    using keep1 [of 0] z q by (simp add: s')
  then have "mem s' (bp - szP - 16) = mem s (bp - szP - 16)" by (simp only: span_addresses(1))
  then have "GET_ALLOC (mem s') (bp - szP - 16) = GET_ALLOC (mem s) (bp - szP - 16)"
    by (rule GET_ALLOC_cong)
  then show "GET_ALLOC (mem s') (bp - szP - OVERHEAD) \<noteq> 0"
    using P(2) by (simp add: OVERHEAD_def)
  let ?k = "unat szP + unat szb + unat szN + 8"
  have q2: "cell ?lo ?k \<noteq> ch" "cell ?lo ?k \<noteq> cf"
    unfolding cf_def ch_def using a cn z(4,7) by (simp_all add: cell_neq)
  have "mem s' (cell ?lo ?k) = mem s (cell ?lo ?k)"
    using keep1 [of ?k] z a cn q2 by (simp add: s')
  then have "mem s' (bp + szb + szN - 8) = mem s (bp + szb + szN - 8)"
    by (simp only: span_addresses(14))
  then have "GET_ALLOC (mem s') (bp + szb + szN - 8) = GET_ALLOC (mem s) (bp + szb + szN - 8)"
    by (rule GET_ALLOC_cong)
  then show "GET_ALLOC (mem s') (HDRP (bp + szb + szN)) \<noteq> 0"
    using N(2) by (simp add: HDRP_def)
qed

lemma count_list_distinct: "distinct ys \<Longrightarrow> r \<in> set ys \<Longrightarrow> count_list ys r = 1"
  by (induction ys) auto

lemma mm_free_no_unmap:
  assumes "\<not> (GET_SIZE (mem (snd (coalesce bp (mark_free bp s0))))
               (HDRP (PREV_BLKP (mem (snd (coalesce bp (mark_free bp s0))))
                  (fst (coalesce bp (mark_free bp s0))))) = OVERHEAD
           \<and> GET_SIZE (mem (snd (coalesce bp (mark_free bp s0))))
               (HDRP (NEXT_BLKP (mem (snd (coalesce bp (mark_free bp s0))))
                  (fst (coalesce bp (mark_free bp s0))))) = 0
           \<and> fst (coalesce bp (mark_free bp s0)) - 2 * OVERHEAD
               \<noteq> basePage (snd (coalesce bp (mark_free bp s0))))"
  shows "mm_free P bp s0 = snd (coalesce bp (mark_free bp s0))"
  using assms by (auto simp add: mm_free_def Let_def split: prod.splits)

subsection \<open>The concrete runs\<close>

lemma heap1_eq:
  "heap1 =
     \<lparr>mem =
        (\<lambda>_. 0)
        (0x10008 := 17, 0x10010 := 17, 0x19FF8 := 1, 0x10018 := 40928, 0x10028 := 0,
           0x10020 := 0),
        nextFree = 0x10020, basePage = 0x10000,
        prov = \<lparr>answers = [], mapped = [(0x10000, 40960)], unmapped = []\<rparr>\<rparr>"
  by (simp add: heap1_def  run_defs script_defs macro_defs Let_def)

lemma heapA_eq:
  "heapA =
     \<lparr>mem =
        (\<lambda>_. 0)
        (0x10008 := 17, 0x10010 := 17, 0x19FF8 := 1, 0x10028 := 0, 0x10020 := 0,
           0x10018 := 129, 0x10090 := 129, 0x100A8 := 0, 0x100A0 := 0, 0x10098 := 129,
           0x10110 := 129, 0x10128 := 0, 0x10120 := 0, 0x10118 := 129, 0x10190 := 129,
           0x101A8 := 0, 0x101A0 := 0, 0x10198 := 129, 0x10210 := 129, 0x10218 := 40416,
           0x19FF0 := 40416, 0x10228 := 0, 0x10220 := 0),
        nextFree = 0x10220, basePage = 0x10000,
        prov = \<lparr>answers = [], mapped = [(0x10000, 40960)], unmapped = []\<rparr>\<rparr>"
  by (simp add: heapA_def heap1_eq run_defs script_defs macro_defs Let_def)

lemma heapB_eq:
  "heapB =
     \<lparr>mem =
        (\<lambda>_. 0)
        (0x10008 := 17, 0x10010 := 17, 0x19FF8 := 1, 0x10028 := 0, 0x10020 := 0,
           0x10018 := 129, 0x10090 := 129, 0x10128 := 0, 0x10120 := 0, 0x10118 := 129,
           0x10190 := 129, 0x101A8 := 0, 0x101A0 := 0, 0x10198 := 129, 0x10210 := 129,
           0x10218 := 40416, 0x19FF0 := 40416, 0x10228 := 0, 0x10098 := 128,
           0x10110 := 128, 0x100A0 := 0, 0x100A8 := 0x10220, 0x10220 := 0x100A0),
        nextFree = 0x100A0, basePage = 0x10000,
        prov = \<lparr>answers = [], mapped = [(0x10000, 40960)], unmapped = []\<rparr>\<rparr>"
  by (simp add: heapB_def heapA_eq run_defs script_defs macro_defs Let_def)

lemma heapC_eq:
  "heapC =
     \<lparr>mem =
        (\<lambda>_. 0)
        (0x10008 := 17, 0x10010 := 17, 0x19FF8 := 1, 0x10028 := 0, 0x10020 := 0,
           0x10018 := 129, 0x10090 := 129, 0x10128 := 0, 0x10120 := 0, 0x101A8 := 0,
           0x101A0 := 0, 0x10198 := 129, 0x10210 := 129, 0x10218 := 40416,
           0x19FF0 := 40416, 0x10228 := 0, 0x10110 := 128, 0x100A0 := 0,
           0x100A8 := 0x10220, 0x10220 := 0x100A0, 0x10118 := 128, 0x10190 := 256,
           0x10098 := 256),
        nextFree = 0x100A0, basePage = 0x10000,
        prov = \<lparr>answers = [], mapped = [(0x10000, 40960)], unmapped = []\<rparr>\<rparr>"
  by (simp add: heapC_def heapB_eq run_defs script_defs macro_defs Let_def)

lemma heapD_eq:
  "heapD =
     \<lparr>mem =
        (\<lambda>_. 0)
        (0x10008 := 17, 0x10010 := 17, 0x19FF8 := 1, 0x10128 := 0, 0x10120 := 0,
           0x101A8 := 0, 0x101A0 := 0, 0x10198 := 129, 0x10210 := 129, 0x10218 := 40416,
           0x19FF0 := 40416, 0x10228 := 0, 0x10110 := 128, 0x100A0 := 0,
           0x100A8 := 0x10220, 0x10118 := 128, 0x10098 := 256, 0x10090 := 128,
           0x10018 := 384, 0x10190 := 384, 0x10020 := 0, 0x10028 := 0x10220,
           0x10220 := 0x10020),
        nextFree = 0x10020, basePage = 0x10000,
        prov = \<lparr>answers = [], mapped = [(0x10000, 40960)], unmapped = []\<rparr>\<rparr>"
  by (simp add: heapD_def heapC_eq run_defs script_defs macro_defs Let_def)

lemma heap2_eq:
  "heap2 =
     \<lparr>mem =
        (\<lambda>_. 0)
        (0x10008 := 17, 0x10010 := 17, 0x19FF8 := 1, 0x10018 := 40928, 0x10028 := 0,
           0x10020 := 0),
        nextFree = 0x10020, basePage = 0x10000,
        prov = \<lparr>answers = [0x20000], mapped = [(0x10000, 40960)], unmapped = []\<rparr>\<rparr>"
  by (simp add: heap2_def  run_defs script_defs macro_defs Let_def)

lemma heap3_eq:
  "heap3 =
     \<lparr>mem =
        (\<lambda>_. 0)
        (0x10008 := 17, 0x10010 := 17, 0x19FF8 := 1, 0x10028 := 0, 0x10020 := 0,
           0x10018 := 40929, 0x19FF0 := 40929),
        nextFree = 0, basePage = 0x10000,
        prov = \<lparr>answers = [0x20000], mapped = [(0x10000, 40960)], unmapped = []\<rparr>\<rparr>"
  by (simp add: heap3_def heap2_eq run_defs script_defs macro_defs Let_def)

lemma heap4_eq:
  "heap4 =
     \<lparr>mem =
        (\<lambda>_. 0)
        (0x10008 := 17, 0x10010 := 17, 0x19FF8 := 1, 0x10028 := 0, 0x10020 := 0,
           0x10018 := 40929, 0x19FF0 := 40929, 0x20008 := 17, 0x20010 := 17,
           0x29FF8 := 1, 0x20028 := 0, 0x20020 := 0, 0x20018 := 81, 0x20060 := 81,
           0x20068 := 40848, 0x29FF0 := 40848, 0x20078 := 0, 0x20070 := 0),
        nextFree = 0x20070, basePage = 0x10000,
        prov =
          \<lparr>answers = [], mapped = [(0x10000, 40960), (0x20000, 40960)],
             unmapped = []\<rparr>\<rparr>"
  by (simp add: heap4_def heap3_eq run_defs script_defs macro_defs Let_def)

lemma heapA_by_malloc:
  "mm_malloc script_provider 100 heap1 = Some (0x10020, setAllocated 0x10020 128 heap1)"
  apply (subst mm_malloc.simps)
  apply (subst first_fit.simps)
  apply (simp add: heap1_eq request_size_def macro_defs)
  done

lemma heap3_by_malloc: "mm_malloc script_provider 40900 heap2 = Some (0x10020, heap3)"
  apply (subst mm_malloc.simps)
  apply (subst first_fit.simps)
  apply (simp add: heap2_eq heap3_def request_size_def macro_defs)
  done

lemma heap4_by_malloc: "mm_malloc script_provider 64 heap3 = Some (0x20020, heap4)"
  apply (subst mm_malloc.simps)
  apply (simp add: heap3_eq first_fit_null request_size_def macro_defs)
  apply (subst mm_malloc.simps)
  apply (subst first_fit.simps)
  apply (simp add: heap4_def heap3_eq run_defs script_defs macro_defs Let_def)
  done

lemmas heap_defs = coalescible_def EFL_def aligned_def in_range_def

lemma request_size_wraps_to_0: "request_size 18446744073709551600 = 0"
  by (simp add: request_size_def macro_defs)

lemma EFL_heapB: "EFL heapB [0x100A0, 0x10220]"
  by (simp add: EFL_def aligned_def heapB_eq macro_defs)

lemma EFL_heapF: "EFL heapF [0x10120, 0x10020, 0x10220]"
  by (simp add: EFL_def aligned_def heapF_def heapE_def heapA_eq run_defs script_defs macro_defs
      Let_def)

section \<open>The claims\<close>

subsection \<open>C1: header and footer of the block that extend creates\<close>

text \<open>
  Claim C1 says that after every public call each block reachable from a prologue has a
  header word equal to its footer word, in particular the interior free block right after
  \<open>extend\<close> has initialised it. The code computes the footer address of the new block with
  \<open>FTRP(pageAdr + OVERHEAD + sizeof(blockHeader))\<close>, which reads the prologue footer as if
  it were the header and so lands on the header of the interior block again: the footer
  is never written. After \<open>mm_init\<close> on zero-filled memory, with 4096-byte pages and the
  region mapped at \<open>0x10000\<close>, the block after the prologue is the head of the free list
  at \<open>0x10020\<close>; its header holds 40928 and its footer holds 0.
\<close>

theorem extend_leaves_footer_unwritten:
  "let s = snd (mm_init script_provider (boot [0x10000]));
       bp = NEXT_BLKP (mem s) (0x10000 + OVERHEAD)
   in bp = 0x10020 \<and> nextFree s = bp
      \<and> GET (mem s) (HDRP bp) = 40928
      \<and> GET (mem s) (FTRP (mem s) bp) = 0
      \<and> GET (mem s) (HDRP bp) \<noteq> GET (mem s) (FTRP (mem s) bp)"
  by (simp add: run_defs script_defs macro_defs Let_def)

subsection \<open>C2: a refused map during allocate\<close>

text \<open>
  Claim C2 says that when the provider refuses the \<open>map\<close> of \<open>extend\<close>, the enclosing
  allocate terminates and returns the absent value. In the code \<open>extend\<close> returns without
  a result and \<open>mm_malloc\<close> calls itself again unconditionally. With a provider that has
  mapped the primordial region at \<open>0x10000\<close> and refuses every further request, the call
  \<open>mm_malloc(2^31)\<close> after \<open>mm_init\<close> does not return at all (the value \<open>None\<close> of the
  model), so it does not return the null pointer.
\<close>

theorem mm_malloc_refused_map_never_returns:
  "mm_malloc script_provider (2 ^ 31) (snd (mm_init script_provider (boot [0x10000]))) = None"
proof (cases "mm_malloc script_provider (2 ^ 31)
                (snd (mm_init script_provider (boot [0x10000])))")
  case None
  then show ?thesis .
next
  case (Some r)
  have False
  proof (rule mm_malloc_retry_forever [OF Some])
    show "(2 ^ 31 :: 64 word) \<noteq> 0" by simp
    show "first_fit (mem (snd (mm_init script_provider (boot [0x10000]))))
            (nextFree (snd (mm_init script_provider (boot [0x10000]))))
            (request_size (2 ^ 31)) = Some 0"
      apply (subst first_fit.simps)
      apply (simp add: run_defs script_defs macro_defs Let_def first_fit_null)
      done
    show "extend script_provider (request_size (2 ^ 31))
            (snd (mm_init script_provider (boot [0x10000])))
          = snd (mm_init script_provider (boot [0x10000]))"
      by (simp add: run_defs script_defs macro_defs Let_def)
  qed
  then show ?thesis ..
qed

subsection \<open>C7: the status returned by initialize\<close>

text \<open>
  Claim C7 says that initialize reports success if and only if the initial \<open>map\<close>
  succeeded. \<open>mm_init\<close> ends with \<open>return 0\<close> on every path. With a provider that
  refuses the first request, \<open>mm_init\<close> still returns the success status 0, and the state it
  leaves has an empty free list and no primordial region.
\<close>

theorem mm_init_reports_success_on_refused_map:
  "mm_init script_provider (boot []) = (0, boot [])
   \<and> nextFree (boot []) = 0 \<and> basePage (boot []) = 0 \<and> mapped (prov (boot [])) = []"
  by (simp add: run_defs script_defs macro_defs Let_def)

subsection \<open>C6: the size of the interior block of a fresh region\<close>

text \<open>
  Claim C6 says that the interior block of a region of \<open>region_bytes\<close> bytes is free and
  that its header records \<open>region_bytes - (2 W + 2 W + A/2 + W) = region_bytes - 48\<close>.
  The code writes \<open>PACK(size - PAGEOVERHEAD, 0)\<close> with \<open>PAGEOVERHEAD = 4 W = 32\<close>: a region
  of 40960 bytes gets an interior block of 40928 bytes, not 40912.
\<close>

theorem interior_block_size_not_48:
  "let s = extend script_provider 4096 (boot [0x10000])
   in mapped (prov s) = [(0x10000, 40960)]
      \<and> GET_SIZE (mem s) (HDRP (0x10000 + PAGEOVERHEAD)) = 40928
      \<and> GET_SIZE (mem s) (HDRP (0x10000 + PAGEOVERHEAD)) \<noteq> 40960 - (2 * 8 + 2 * 8 + 16 div 2 + 8)"
  by (simp add: run_defs script_defs macro_defs Let_def)

text \<open>
  C6 as amended: for every region that \<open>extend\<close> maps successfully (the page size a power
  of two of at least 16, the former head of the free list not being the header word of
  the new block), the interior block is free and its header records the mapped length
  minus \<open>PAGEOVERHEAD = 4 W = 32\<close> bytes.
\<close>

theorem extend_interior_block:
  assumes ps: "mem_pagesize P = 2 ^ k" "4 \<le> k"
    and map: "mem_map P (extend_bytes (mem_pagesize P) sz) (prov s) = (adr, p')" "adr \<noteq> 0"
    and fresh: "nextFree s \<noteq> HDRP (adr + PAGEOVERHEAD)"
  shows "GET_ALLOC (mem (extend P sz s)) (HDRP (adr + PAGEOVERHEAD)) = 0
    \<and> GET_SIZE (mem (extend P sz s)) (HDRP (adr + PAGEOVERHEAD))
        = extend_bytes (mem_pagesize P) sz - PAGEOVERHEAD
    \<and> PAGEOVERHEAD = 4 * 8"
  using assms by (rule extend_new_block)

theorem extend_interior_block_witness:
  "mem_pagesize script_provider = 2 ^ 12 \<and> (4::nat) \<le> 12
   \<and> mem_map script_provider (extend_bytes (mem_pagesize script_provider) 4096) (prov (boot [0x10000]))
       = (0x10000, \<lparr>answers = [], mapped = [(0x10000, 40960)], unmapped = []\<rparr>)
   \<and> (0x10000 :: 64 word) \<noteq> 0
   \<and> nextFree (boot [0x10000]) \<noteq> HDRP (0x10000 + PAGEOVERHEAD)
   \<and> GET_ALLOC (mem (extend script_provider 4096 (boot [0x10000]))) (HDRP (0x10000 + PAGEOVERHEAD)) = 0
   \<and> GET_SIZE (mem (extend script_provider 4096 (boot [0x10000]))) (HDRP (0x10000 + PAGEOVERHEAD))
       = 40960 - 32"
proof -
  have 1: "mem_pagesize script_provider = 2 ^ 12"
    by (simp add: script_defs)
  have 2: "(4::nat) \<le> 12" by simp
  have 3: "mem_map script_provider (extend_bytes (mem_pagesize script_provider) 4096)
             (prov (boot [0x10000]))
           = (0x10000, \<lparr>answers = [], mapped = [(0x10000, 40960)], unmapped = []\<rparr>)"
    by (simp add: script_defs extend_bytes_def macro_defs)
  have 4: "(0x10000 :: 64 word) \<noteq> 0" by simp
  have 5: "nextFree (boot [0x10000]) \<noteq> HDRP (0x10000 + PAGEOVERHEAD)"
    by (simp add: script_defs macro_defs)
  have 6: "extend_bytes (mem_pagesize script_provider) 4096 = 40960"
    by (simp add: script_defs extend_bytes_def macro_defs)
  show ?thesis
    using extend_interior_block [OF 1 2 3 4 5] 1 2 3 4 5 6
    by (simp add: PAGEOVERHEAD_def)
qed

subsection \<open>C9: extend creates a block that fits\<close>

text \<open>
  Claim C9 says that for every byte count \<open>s\<close>, \<open>extend\<close> requests exactly 10 times the
  page-aligned \<open>s\<close> and that a successful \<open>extend\<close> creates a free block of size at least
  \<open>s\<close>, so that the retry of allocate finds a block. The product is computed on
  \<open>size_t\<close> and wraps around: for \<open>s = 1844674407370956800\<close> (the size \<open>mm_malloc\<close>
  computes for a request of \<open>s - 16\<close> bytes) with 4096-byte pages, \<open>extend\<close> asks the
  provider for 16384 bytes; when that is granted the new free block has 16352 bytes, and
  the retry finds no fitting block.
\<close>

theorem extend_wraps_around:
  "let sz = 1844674407370956800;
       s = extend script_provider sz (boot [0x10000])
   in sz = request_size 1844674407370956784
      \<and> mapped (prov s) = [(0x10000, 16384)]
      \<and> unat (16384 :: 64 word) \<noteq> 10 * page_aligned 4096 (unat sz)
      \<and> nextFree s = 0x10020
      \<and> GET_SIZE (mem s) (HDRP (nextFree s)) = 16352
      \<and> GET_SIZE (mem s) (HDRP (nextFree s)) < sz
      \<and> first_fit (mem s) (nextFree s) sz = Some 0"
  apply (simp add: Let_def)
  apply (intro conjI)
  subgoal by (simp add: request_size_def macro_defs)
  subgoal by (simp add: run_defs script_defs macro_defs Let_def)
  subgoal by (simp add: page_aligned_def)
  subgoal by (simp add: run_defs script_defs macro_defs Let_def)
  subgoal by (simp add: run_defs script_defs macro_defs Let_def)
  subgoal by (simp add: run_defs script_defs macro_defs Let_def)
  subgoal
    apply (subst first_fit.simps)
    apply (simp add: run_defs script_defs macro_defs Let_def first_fit_null)
    done
  done

text \<open>
  C9 as amended: for every byte count \<open>s > 0\<close> for which 10 times the page-aligned \<open>s\<close>
  is below \<open>2^64\<close> (the page size a power of two of at least 16), \<open>extend\<close> requests
  exactly 10 times the page-aligned \<open>s\<close>; when the provider grants a region inside the
  address space, the new block is the head of the free list, is free and has size at
  least \<open>s\<close>, and the first-fit walk returns it. An allocate of \<open>n\<close> bytes whose size
  computation does not wrap around (\<open>n + 31 < 2^64\<close>, so that \<open>s\<close> is at least 32) and whose
  search had failed returns the new block after this single \<open>extend\<close>.
\<close>

theorem extend_block_fits:
  assumes ps: "mem_pagesize P = 2 ^ k" "4 \<le> k" "k < 64"
    and pos: "0 < sz"
    and nowrap: "10 * page_aligned (2 ^ k) (unat sz) < 2 ^ 64"
    and map: "mem_map P (extend_bytes (mem_pagesize P) sz) (prov s) = (adr, p')" "adr \<noteq> 0"
    and region: "unat adr + unat (extend_bytes (mem_pagesize P) sz) \<le> 2 ^ 64"
    and fresh: "nextFree s \<noteq> HDRP (adr + PAGEOVERHEAD)"
  shows "unat (extend_bytes (mem_pagesize P) sz) = unat PAGERATIO * page_aligned (2 ^ k) (unat sz)
    \<and> nextFree (extend P sz s) = adr + PAGEOVERHEAD
    \<and> GET_ALLOC (mem (extend P sz s)) (HDRP (adr + PAGEOVERHEAD)) = 0
    \<and> sz \<le> GET_SIZE (mem (extend P sz s)) (HDRP (adr + PAGEOVERHEAD))
    \<and> first_fit (mem (extend P sz s)) (nextFree (extend P sz s)) sz = Some (adr + PAGEOVERHEAD)
    \<and> (\<forall>n. n \<noteq> 0 \<and> unat n + 31 < 2 ^ 64 \<and> request_size n = sz
            \<and> first_fit (mem s) (nextFree s) sz = Some 0 \<longrightarrow>
          32 \<le> sz
          \<and> mm_malloc P n s
              = Some (adr + PAGEOVERHEAD, setAllocated (adr + PAGEOVERHEAD) sz (extend P sz s)))"
proof -
  let ?bytes = "extend_bytes (mem_pagesize P) sz"
  let ?s' = "extend P sz s"
  let ?bp = "adr + PAGEOVERHEAD"
  let ?pa = "page_aligned (2 ^ k) (unat sz)"
  have n: "0 < unat sz" using pos by (simp add: word_less_nat_alt)
  have bytes: "unat ?bytes = 10 * ?pa"
    unfolding ps(1) using ps(3) pos nowrap by (rule unat_extend_bytes)
  have pa1: "2 ^ k \<le> ?pa" by (rule page_aligned_ge_ps) (use n in simp_all)
  have pa2: "unat sz \<le> ?pa" by (rule page_aligned_ge) simp
  have "(2::nat) ^ 4 \<le> 2 ^ k" using ps(2) by (rule power_increasing) simp
  then have pa3: "16 \<le> ?pa" using pa1 by simp
  have blk: "GET_ALLOC (mem ?s') (HDRP ?bp) = 0
      \<and> GET_SIZE (mem ?s') (HDRP ?bp) = ?bytes - PAGEOVERHEAD \<and> PAGEOVERHEAD = 4 * 8"
    using ps(1,2) map fresh by (rule extend_new_block)
  have "unat (32 :: 64 word) \<le> unat ?bytes" using bytes pa3 by simp
  then have "(32 :: 64 word) \<le> ?bytes" by (simp only: word_le_nat_alt)
  then have "unat (?bytes - 32) = unat ?bytes - unat (32 :: 64 word)" by (rule unat_sub)
  then have "unat sz \<le> unat (?bytes - 32)" using bytes pa2 pa3 by simp
  then have fits: "sz \<le> GET_SIZE (mem ?s') (HDRP ?bp)"
    using blk by (simp add: word_le_nat_alt PAGEOVERHEAD_def)
  have nf: "nextFree ?s' = ?bp"
    using extend_success_fields(1) [OF map] by (simp add: PAGEOVERHEAD_def)
  have "unat adr + 32 < 2 ^ 64" using region bytes pa3 by simp
  then have "unat (adr + 32) = unat adr + unat (32 :: 64 word)"
    using unat_add_lem [of adr 32] by simp
  then have "unat (adr + 32) \<noteq> 0" by simp
  then have nz: "?bp \<noteq> 0" by (auto simp add: PAGEOVERHEAD_def)
  have ff: "first_fit (mem ?s') (nextFree ?s') sz = Some ?bp"
    unfolding nf using nz fits by (rule first_fit_head)
  have big: "32 \<le> sz" if n: "unat n + 31 < 2 ^ 64" "request_size n = sz" for n
  proof -
    have "unat sz = align_up (max (unat n) (2 * 8) + 16) 16"
      using unat_request_size [OF n(1)] n(2) by simp
    also have "\<dots> \<ge> 32" unfolding align_up_def max_def by (simp split: if_splits) arith
    finally have "unat (32 :: 64 word) \<le> unat sz" by simp
    then show ?thesis by (simp only: word_le_nat_alt)
  qed
  have retry: "mm_malloc P n s = Some (?bp, setAllocated ?bp sz ?s')"
    if n: "n \<noteq> 0" "request_size n = sz" "first_fit (mem s) (nextFree s) sz = Some 0" for n
  proof -
    define n' where "n' = (if n \<le> MINSIZE then MINSIZE else n)"
    have n': "n' \<noteq> 0" using n(1) by (simp add: n'_def MINSIZE_def)
    have r': "request_size n' = sz" using n(2) by (simp only: n'_def request_size_idem)
    have "mm_malloc P n s = mm_malloc P n' ?s'"
      by (subst mm_malloc.simps) (simp add: n n'_def)
    also have "\<dots> = Some (?bp, setAllocated ?bp sz ?s')"
      by (subst mm_malloc.simps) (simp add: n' r' ff nz)
    finally show ?thesis .
  qed
  have last: "\<forall>n. n \<noteq> 0 \<and> unat n + 31 < 2 ^ 64 \<and> request_size n = sz
            \<and> first_fit (mem s) (nextFree s) sz = Some 0 \<longrightarrow>
          32 \<le> sz \<and> mm_malloc P n s = Some (?bp, setAllocated ?bp sz ?s')"
    using retry big by blast
  have b1: "unat ?bytes = unat PAGERATIO * ?pa" using bytes by (simp add: PAGERATIO_def)
  have b3: "GET_ALLOC (mem ?s') (HDRP ?bp) = 0" using blk by simp
  show ?thesis
    using b1 nf b3 fits ff last by blast
qed

theorem extend_block_fits_witness:
  "mem_pagesize script_provider = 2 ^ 12 \<and> (4::nat) \<le> 12 \<and> (12::nat) < 64
   \<and> (0 :: 64 word) < 80
   \<and> 10 * page_aligned (2 ^ 12) (unat (80 :: 64 word)) < 2 ^ 64
   \<and> mem_map script_provider (extend_bytes (mem_pagesize script_provider) 80) (prov (boot [0x10000]))
       = (0x10000, \<lparr>answers = [], mapped = [(0x10000, 40960)], unmapped = []\<rparr>)
   \<and> (0x10000 :: 64 word) \<noteq> 0
   \<and> unat (0x10000 :: 64 word) + unat (extend_bytes (mem_pagesize script_provider) 80) \<le> 2 ^ 64
   \<and> nextFree (boot [0x10000]) \<noteq> HDRP (0x10000 + PAGEOVERHEAD)
   \<and> (64 :: 64 word) \<noteq> 0 \<and> unat (64 :: 64 word) + 31 < 2 ^ 64 \<and> request_size 64 = 80
   \<and> first_fit (mem (boot [0x10000])) (nextFree (boot [0x10000])) 80 = Some 0
   \<and> unat (extend_bytes (mem_pagesize script_provider) 80) = 40960
   \<and> first_fit (mem (extend script_provider 80 (boot [0x10000])))
        (nextFree (extend script_provider 80 (boot [0x10000]))) 80 = Some 0x10020
   \<and> mm_malloc script_provider 64 (boot [0x10000])
       = Some (0x10020, setAllocated 0x10020 80 (extend script_provider 80 (boot [0x10000])))"
proof -
  have 1: "mem_pagesize script_provider = 2 ^ 12"
    by (simp add: script_defs)
  have 2: "(4::nat) \<le> 12" and 3: "(12::nat) < 64" and 4: "(0 :: 64 word) < 80"
    by simp_all
  have 5: "10 * page_aligned (2 ^ 12) (unat (80 :: 64 word)) < 2 ^ 64"
    by (simp add: page_aligned_def)
  have b: "extend_bytes (mem_pagesize script_provider) 80 = 40960"
    by (simp add: script_defs extend_bytes_def macro_defs)
  have 6: "mem_map script_provider (extend_bytes (mem_pagesize script_provider) 80)
             (prov (boot [0x10000]))
           = (0x10000, \<lparr>answers = [], mapped = [(0x10000, 40960)], unmapped = []\<rparr>)"
    by (simp add: b) (simp add: script_defs)
  have 7: "(0x10000 :: 64 word) \<noteq> 0" by simp
  have 8: "unat (0x10000 :: 64 word) + unat (extend_bytes (mem_pagesize script_provider) 80) \<le> 2 ^ 64"
    by (simp add: b)
  have 9: "nextFree (boot [0x10000]) \<noteq> HDRP (0x10000 + PAGEOVERHEAD)"
    by (simp add: script_defs macro_defs)
  have 10: "(64 :: 64 word) \<noteq> 0 \<and> unat (64 :: 64 word) + 31 < 2 ^ 64 \<and> request_size 64 = 80
      \<and> first_fit (mem (boot [0x10000])) (nextFree (boot [0x10000])) 80 = Some 0"
    by (simp add: request_size_def macro_defs boot_def first_fit_null)
  have e: "(0x10000 :: 64 word) + PAGEOVERHEAD = 0x10020"
    by (simp add: PAGEOVERHEAD_def)
  note T = extend_block_fits [OF 1 2 3 4 5 6 7 8 9, unfolded e]
  have c1: "unat (extend_bytes (mem_pagesize script_provider) 80) = 40960"
    by (simp add: b)
  from T have c2: "first_fit (mem (extend script_provider 80 (boot [0x10000])))
        (nextFree (extend script_provider 80 (boot [0x10000]))) 80 = Some 0x10020"
    by blast
  from T 10 have c3: "mm_malloc script_provider 64 (boot [0x10000])
       = Some (0x10020, setAllocated 0x10020 80 (extend script_provider 80 (boot [0x10000])))"
    by blast
  show ?thesis
    using 1 2 3 4 5 6 7 8 9 10 c1 c2 c3 by blast
qed

subsection \<open>C10: initialize called again\<close>

text \<open>
  Claim C10: a call of initialize in any state (in particular after regions have been
  mapped) whose \<open>map\<close> succeeds leaves a free list that consists of the block of the
  freshly mapped region alone (its links are null), makes that region the primordial
  one, and does nothing to the provider but that one \<open>map\<close>: no region is unmapped, and the
  former regions are no longer reachable from the free list or the primordial base.
\<close>

theorem mm_init_again:
  assumes "mem_map P (extend_bytes (mem_pagesize P) (mem_pagesize P)) (prov s) = (adr, p')"
    and "adr \<noteq> 0"
  shows "fst (mm_init P s) = 0
    \<and> nextFree (snd (mm_init P s)) = adr + PAGEOVERHEAD
    \<and> node_prev (mem (snd (mm_init P s))) (adr + PAGEOVERHEAD) = 0
    \<and> node_next (mem (snd (mm_init P s))) (adr + PAGEOVERHEAD) = 0
    \<and> basePage (snd (mm_init P s)) = adr
    \<and> prov (snd (mm_init P s)) = p'"
proof -
  let ?s0 = "s\<lparr>nextFree := 0, basePage := 0\<rparr>"
  have m: "mem_map P (extend_bytes (mem_pagesize P) (mem_pagesize P)) (prov ?s0) = (adr, p')"
    using assms(1) by simp
  show ?thesis
    using addEFLNode_empty_links [of "?s0\<lparr>mem := init_page adr (extend_bytes (mem_pagesize P) (mem_pagesize P)) (mem ?s0), prov := p'\<rparr>" "adr + 32"]
    by (simp add: mm_init_def extend_success_fields [OF m assms(2)] PAGEOVERHEAD_def)
qed

theorem mm_init_again_witness:
  "mem_map script_provider (extend_bytes (mem_pagesize script_provider) (mem_pagesize script_provider))
       (prov (snd (mm_init script_provider (boot [0x10000, 0x20000]))))
     = (0x20000, \<lparr>answers = [], mapped = [(0x10000, 40960), (0x20000, 40960)], unmapped = []\<rparr>)
   \<and> (0x20000 :: 64 word) \<noteq> 0
   \<and> nextFree (snd (mm_init script_provider (boot [0x10000, 0x20000]))) = 0x10020
   \<and> basePage (snd (mm_init script_provider (boot [0x10000, 0x20000]))) = 0x10000
   \<and> nextFree (snd (mm_init script_provider (snd (mm_init script_provider (boot [0x10000, 0x20000]))))) = 0x20020
   \<and> node_next (mem (snd (mm_init script_provider (snd (mm_init script_provider (boot [0x10000, 0x20000])))))) 0x20020 = 0
   \<and> basePage (snd (mm_init script_provider (snd (mm_init script_provider (boot [0x10000, 0x20000]))))) = 0x20000
   \<and> unmapped (prov (snd (mm_init script_provider (snd (mm_init script_provider (boot [0x10000, 0x20000])))))) = []
   \<and> mapped (prov (snd (mm_init script_provider (snd (mm_init script_provider (boot [0x10000, 0x20000]))))))
       = [(0x10000, 40960), (0x20000, 40960)]"
proof -
  let ?s = "snd (mm_init script_provider (boot [0x10000, 0x20000]))"
  have 1: "mem_map script_provider
             (extend_bytes (mem_pagesize script_provider) (mem_pagesize script_provider)) (prov ?s)
           = (0x20000, \<lparr>answers = [], mapped = [(0x10000, 40960), (0x20000, 40960)], unmapped = []\<rparr>)"
    by (simp add: run_defs script_defs macro_defs Let_def)
  have 2: "(0x20000 :: 64 word) \<noteq> 0" by simp
  have 3: "nextFree ?s = 0x10020 \<and> basePage ?s = 0x10000"
    by (simp add: run_defs script_defs macro_defs Let_def)
  show ?thesis
    using mm_init_again [OF 1 2] 1 2 3 by (simp add: PAGEOVERHEAD_def)
qed

subsection \<open>C4: the split policy of set-allocated\<close>

text \<open>
  Claim C4 describes set-allocated for every aligned request \<open>s \<le> avail\<close>. The size 0 is
  aligned, and \<open>mm_malloc\<close> passes it: for a request of \<open>2^64 - 16\<close> bytes the size computed
  on \<open>size_t\<close> wraps around to 0, every block fits, and \<open>setAllocated\<close> is called on the head
  of the free list with size 0. After \<open>mm_init\<close> this is the block at \<open>0x10020\<close>, of 40928
  bytes. The split branch is taken, and \<open>next_block\<close> of a block of size 0 is the block
  itself: the tags \<open>(0, allocated)\<close> are written to the header and, as footer, over the
  footer of the prologue at \<open>0x10010\<close>; then the header is overwritten by the tag of the
  free remainder and the block is pushed onto the free list again. The block ends free,
  with its header \<open>(40928, free)\<close> and not \<open>(0, allocated)\<close>, and it is still the head of the
  free list.
\<close>

theorem setAllocated_size_0:
  "request_size 18446744073709551600 = 0
   \<and> mm_malloc script_provider 18446744073709551600 heap1
       = Some (0x10020, setAllocated 0x10020 0 heap1)
   \<and> EFL heap1 [0x10020]
   \<and> GET (mem heap1) (HDRP 0x10020) = PACK 40928 0
   \<and> aligned 0 \<and> (0 :: 64 word) \<le> 40928 \<and> PAGEOVERHEAD \<le> 40928 - 0
   \<and> clear_of 0x10020 40928 [0x10020]
   \<and> unat (0x10020 :: 64 word) + unat (40928 :: 64 word) \<le> 2 ^ 64
   \<and> GET (mem (setAllocated 0x10020 0 heap1)) (HDRP 0x10020) = PACK 40928 0
   \<and> GET (mem (setAllocated 0x10020 0 heap1)) (HDRP 0x10020) \<noteq> PACK 0 1
   \<and> EFL (setAllocated 0x10020 0 heap1) [0x10020]
   \<and> GET (mem heap1) 0x10010 = PACK OVERHEAD 1
   \<and> GET (mem (setAllocated 0x10020 0 heap1)) 0x10010 = PACK 0 1"
  apply (intro conjI)
  subgoal by (rule request_size_wraps_to_0)
  subgoal
    apply (subst mm_malloc.simps)
    apply (subst first_fit.simps)
    apply (simp add: request_size_wraps_to_0 heap1_eq macro_defs)
    done
  subgoal by (rule EFL_heap1)
  subgoal by (simp add: heap1_eq macro_defs)
  subgoal by (simp add: aligned_def)
  subgoal by simp
  subgoal by (simp add: PAGEOVERHEAD_def)
  subgoal by (simp add: clear_of_def)
  subgoal by simp
  subgoal by (simp add: heap1_eq run_defs macro_defs Let_def)
  subgoal by (simp add: heap1_eq run_defs macro_defs Let_def)
  subgoal by (simp add: EFL_def aligned_def heap1_eq run_defs macro_defs Let_def)
  subgoal by (simp add: heap1_eq macro_defs)
  subgoal by (simp add: heap1_eq run_defs macro_defs Let_def)
  done

text \<open>
  C4 as amended: set-allocated on a free block \<open>bp\<close> of size \<open>avail\<close> with an aligned request
  \<open>sz \<le> avail\<close> that is a block size, \<open>sz \<ge> 32\<close> (the sizes that allocate computes for the
  requests that do not wrap around). The block is a node of a well-formed free list \<open>xs\<close>,
  no other free block overlaps it, and it does not wrap around the end of the address
  space. If \<open>avail - sz \<ge> PAGEOVERHEAD\<close>, header and footer of \<open>bp\<close> become
  \<open>(sz, allocated)\<close>, a free block of size \<open>avail - sz\<close> is written at
  \<open>next_block(bp) = bp + sz\<close>, and the free list is the former list without \<open>bp\<close> with the
  new block pushed at its head. Otherwise header and footer become \<open>(avail, allocated)\<close>
  and the free list is the former list without \<open>bp\<close>: no block is created.
\<close>

theorem setAllocated_split_policy:
  assumes "EFL s xs" and "bp \<in> set xs"
    and "GET_SIZE (mem s) (HDRP bp) = avail"
    and "aligned sz" and "32 \<le> sz" and "sz \<le> avail"
    and "clear_of bp avail xs"
    and "unat bp + unat avail \<le> 2 ^ 64"
  shows "(PAGEOVERHEAD \<le> avail - sz \<longrightarrow>
            GET (mem (setAllocated bp sz s)) (HDRP bp) = PACK sz 1
          \<and> GET (mem (setAllocated bp sz s)) (FTRP (mem (setAllocated bp sz s)) bp) = PACK sz 1
          \<and> NEXT_BLKP (mem (setAllocated bp sz s)) bp = bp + sz
          \<and> GET (mem (setAllocated bp sz s)) (HDRP (bp + sz)) = PACK (avail - sz) 0
          \<and> GET (mem (setAllocated bp sz s)) (FTRP (mem (setAllocated bp sz s)) (bp + sz))
              = PACK (avail - sz) 0
          \<and> EFL (setAllocated bp sz s) ((bp + sz) # remove1 bp xs)
          \<and> bp \<notin> set ((bp + sz) # remove1 bp xs))
       \<and> (\<not> PAGEOVERHEAD \<le> avail - sz \<longrightarrow>
            GET (mem (setAllocated bp sz s)) (HDRP bp) = PACK avail 1
          \<and> GET (mem (setAllocated bp sz s)) (FTRP (mem (setAllocated bp sz s)) bp) = PACK avail 1
          \<and> EFL (setAllocated bp sz s) (remove1 bp xs)
          \<and> bp \<notin> set (remove1 bp xs))"
proof (intro conjI impI)
  let ?s' = "setAllocated bp sz s"
  have d: "distinct xs" using assms(1) by (rule EFL_distinct)
  have al: "aligned avail" unfolding assms(3) [symmetric] by (rule GET_SIZE_aligned)
  have arem: "aligned (avail - sz)" using al assms(4) by (rule aligned_diff)
  {
    assume split: "PAGEOVERHEAD \<le> avail - sz"
    note r = setAllocated_split [OF assms split]
    have sz0: "sz \<noteq> 0" using assms(5) by auto
    show h: "GET (mem ?s') (HDRP bp) = PACK sz 1"
      using r(2) by (simp add: GET_def)
    have gs: "GET_SIZE (mem ?s') (HDRP bp) = sz"
      using assms(4) r(2) by (rule GET_SIZE_PACK1)
    show "GET (mem ?s') (FTRP (mem ?s') bp) = PACK sz 1"
      using r(3) by (simp add: GET_def FTRP_def gs OVERHEAD_def)
    show "NEXT_BLKP (mem ?s') bp = bp + sz"
      by (simp add: NEXT_BLKP_def gs)
    show "GET (mem ?s') (HDRP (bp + sz)) = PACK (avail - sz) 0"
      using r(4) by (simp add: GET_def)
    have gs2: "GET_SIZE (mem ?s') (HDRP (bp + sz)) = avail - sz"
      using arem r(4) by (rule GET_SIZE_PACK0)
    show "GET (mem ?s') (FTRP (mem ?s') (bp + sz)) = PACK (avail - sz) 0"
      using r(5) by (simp add: GET_def FTRP_def gs2 OVERHEAD_def)
    show "EFL ?s' ((bp + sz) # remove1 bp xs)"
      by (rule r(1))
    show "bp \<notin> set ((bp + sz) # remove1 bp xs)"
      using d sz0 by simp
  }
  {
    assume nosplit: "\<not> PAGEOVERHEAD \<le> avail - sz"
    have av: "32 \<le> avail" using assms(5,6) by simp
    note r = setAllocated_whole [OF assms(1,2,3) av assms(7) nosplit]
    show "GET (mem ?s') (HDRP bp) = PACK avail 1"
      using r(2) by (simp add: GET_def)
    have gs: "GET_SIZE (mem ?s') (HDRP bp) = avail"
      using al r(2) by (rule GET_SIZE_PACK1)
    show "GET (mem ?s') (FTRP (mem ?s') bp) = PACK avail 1"
      using r(3) by (simp add: GET_def FTRP_def gs OVERHEAD_def)
    show "EFL ?s' (remove1 bp xs)"
      by (rule r(1))
    show "bp \<notin> set (remove1 bp xs)"
      using d by simp
  }
qed

theorem setAllocated_split_policy_witness:
  "EFL heap1 [0x10020] \<and> 0x10020 \<in> set [0x10020 :: 64 word]
   \<and> GET_SIZE (mem heap1) (HDRP 0x10020) = 40928
   \<and> aligned 48 \<and> (32 :: 64 word) \<le> 48 \<and> (48 :: 64 word) \<le> 40928
   \<and> aligned 40912 \<and> (32 :: 64 word) \<le> 40912 \<and> (40912 :: 64 word) \<le> 40928
   \<and> clear_of 0x10020 40928 [0x10020]
   \<and> unat (0x10020 :: 64 word) + unat (40928 :: 64 word) \<le> 2 ^ 64
   \<and> PAGEOVERHEAD \<le> 40928 - 48
   \<and> GET (mem (setAllocated 0x10020 48 heap1)) (HDRP 0x10020) = 49
   \<and> GET (mem (setAllocated 0x10020 48 heap1)) (HDRP 0x10050) = 40880
   \<and> EFL (setAllocated 0x10020 48 heap1) [0x10050]
   \<and> \<not> PAGEOVERHEAD \<le> 40928 - 40912
   \<and> GET (mem (setAllocated 0x10020 40912 heap1)) (HDRP 0x10020) = 40929
   \<and> EFL (setAllocated 0x10020 40912 heap1) []"
proof -
  have 1: "EFL heap1 [0x10020]" by (rule EFL_heap1)
  have 2: "0x10020 \<in> set [0x10020 :: 64 word]" by simp
  have 3: "GET_SIZE (mem heap1) (HDRP 0x10020) = 40928"
    by (simp add: heap1_def run_defs script_defs macro_defs Let_def)
  have 4: "aligned 48" "aligned 40912" by (simp_all add: aligned_def)
  have 5: "(32 :: 64 word) \<le> 48" "(32 :: 64 word) \<le> 40912" by simp_all
  have 6: "(48 :: 64 word) \<le> 40928" "(40912 :: 64 word) \<le> 40928" by simp_all
  have 7: "clear_of 0x10020 40928 [0x10020]" by (simp add: clear_of_def)
  have 8: "unat (0x10020 :: 64 word) + unat (40928 :: 64 word) \<le> 2 ^ 64" by simp
  have 9: "PAGEOVERHEAD \<le> 40928 - 48" "\<not> PAGEOVERHEAD \<le> 40928 - 40912"
    by (simp_all add: PAGEOVERHEAD_def)
  note A = setAllocated_split_policy [OF 1 2 3 4(1) 5(1) 6(1) 7 8]
  note B = setAllocated_split_policy [OF 1 2 3 4(2) 5(2) 6(2) 7 8]
  from A 9(1) have a: "GET (mem (setAllocated 0x10020 48 heap1)) (HDRP 0x10020) = 49"
      "GET (mem (setAllocated 0x10020 48 heap1)) (HDRP 0x10050) = 40880"
      "EFL (setAllocated 0x10020 48 heap1) [0x10050]"
    by (simp_all add: PACK_def)
  from B 9(2) have b: "GET (mem (setAllocated 0x10020 40912 heap1)) (HDRP 0x10020) = 40929"
      "EFL (setAllocated 0x10020 40912 heap1) []"
    by (simp_all add: PACK_def)
  show ?thesis
    using 1 2 3 4 5 6 7 8 9 a b by blast
qed

subsection \<open>C8: the request size and the first-fit order\<close>

text \<open>
  Claim C8 says that for every request \<open>n > 0\<close> allocate computes
  \<open>s = align_up(max(n, 2 W) + OVERHEAD, A)\<close> and returns the first block of the walk from
  the head whose size is at least \<open>s\<close>. The sum is computed on \<open>size_t\<close>: for
  \<open>n = 2^64 - 16\<close> it wraps around and the code searches for a block of 0 bytes, where the
  formula gives \<open>2^64\<close>; after \<open>mm_init\<close> the call returns the block at \<open>0x10020\<close>, of
  40928 bytes.
\<close>

theorem mm_malloc_request_wraps:
  "request_size 18446744073709551600 = 0
   \<and> align_up (max (unat (18446744073709551600 :: 64 word)) (2 * 8) + unat OVERHEAD) (unat ALIGNMENT)
       = 18446744073709551616
   \<and> map_option fst (mm_malloc script_provider 18446744073709551600 heap1) = Some 0x10020
   \<and> unat (GET_SIZE (mem heap1) (HDRP 0x10020)) = 40928"
  apply (intro conjI)
  subgoal by (rule request_size_wraps_to_0)
  subgoal by (simp add: align_up_def macro_defs)
  subgoal
    apply (subst mm_malloc.simps)
    apply (subst first_fit.simps)
    apply (simp add: request_size_wraps_to_0 heap1_eq macro_defs)
    done
  subgoal by (simp add: heap1_eq macro_defs)
  done

text \<open>
  C8 as amended: for every request \<open>n > 0\<close> with \<open>n + 31 < 2^64\<close>, on a well-formed free
  list \<open>xs\<close>, the size searched for is \<open>align_up(max(n, 2 W) + OVERHEAD, A)\<close>, and when some
  node of the list has a block of at least that size, allocate returns the first such
  node in the order of the walk from the head (and marks it allocated with
  \<open>setAllocated\<close>).
\<close>

theorem mm_malloc_first_fit:
  assumes "EFL s xs" "n \<noteq> 0" "unat n + 31 < 2 ^ 64"
  shows "unat (request_size n) = align_up (max (unat n) (2 * 8) + unat OVERHEAD) (unat ALIGNMENT)
    \<and> (\<forall>b. find (\<lambda>x. request_size n \<le> GET_SIZE (mem s) (HDRP x)) xs = Some b \<longrightarrow>
          mm_malloc P n s = Some (b, setAllocated b (request_size n) s))"
proof -
  have e: "efl (mem s) 0 (nextFree s) xs" using assms(1) by (simp add: EFL_def)
  have "mm_malloc P n s = Some (b, setAllocated b (request_size n) s)"
    if b: "find (\<lambda>x. request_size n \<le> GET_SIZE (mem s) (HDRP x)) xs = Some b" for b
  proof -
    have "b \<in> set xs" using b by (auto simp add: find_Some_iff)
    then have b0: "b \<noteq> 0" using efl_nonnull [OF e] by auto
    have "first_fit (mem s) (nextFree s) (request_size n) = Some b"
      using first_fit_efl [OF e, of "request_size n"] b by simp
    then show ?thesis
      using assms(2) b0 by (subst mm_malloc.simps) simp
  qed
  then show ?thesis
    using unat_request_size [OF assms(3)] by (simp add: OVERHEAD_def ALIGNMENT_def)
qed

theorem mm_malloc_first_fit_witness:
  "EFL heapF [0x10120, 0x10020, 0x10220]
   \<and> (100 :: 64 word) \<noteq> 0 \<and> unat (100 :: 64 word) + 31 < 2 ^ 64
   \<and> (200 :: 64 word) \<noteq> 0 \<and> unat (200 :: 64 word) + 31 < 2 ^ 64
   \<and> unat (request_size 100) = 128 \<and> unat (request_size 200) = 224
   \<and> map (\<lambda>x. unat (GET_SIZE (mem heapF) (HDRP x))) [0x10120, 0x10020, 0x10220] = [128, 128, 40416]
   \<and> find (\<lambda>x. request_size 100 \<le> GET_SIZE (mem heapF) (HDRP x)) [0x10120, 0x10020, 0x10220]
       = Some 0x10120
   \<and> find (\<lambda>x. request_size 200 \<le> GET_SIZE (mem heapF) (HDRP x)) [0x10120, 0x10020, 0x10220]
       = Some 0x10220
   \<and> mm_malloc script_provider 100 heapF
       = Some (0x10120, setAllocated 0x10120 (request_size 100) heapF)
   \<and> mm_malloc script_provider 200 heapF
       = Some (0x10220, setAllocated 0x10220 (request_size 200) heapF)
   \<and> EFL heapB [0x100A0, 0x10220]
   \<and> find (\<lambda>x. request_size 200 \<le> GET_SIZE (mem heapB) (HDRP x)) [0x100A0, 0x10220]
       = Some 0x10220
   \<and> mm_malloc script_provider 200 heapB
       = Some (0x10220, setAllocated 0x10220 (request_size 200) heapB)"
proof -
  have 1: "EFL heapF [0x10120, 0x10020, 0x10220]" by (rule EFL_heapF)
  have 2: "(100 :: 64 word) \<noteq> 0" "(200 :: 64 word) \<noteq> 0" by simp_all
  have 3: "unat (100 :: 64 word) + 31 < 2 ^ 64" "unat (200 :: 64 word) + 31 < 2 ^ 64"
    by simp_all
  have r: "request_size 100 = 128" "request_size 200 = 224"
    by (simp_all add: request_size_def macro_defs)
  have 4: "unat (request_size 100) = 128" "unat (request_size 200) = 224"
    by (simp_all add: r)
  have 5: "map (\<lambda>x. unat (GET_SIZE (mem heapF) (HDRP x))) [0x10120, 0x10020, 0x10220]
      = [128, 128, 40416]"
    by (simp add: heapF_def heapE_def heapA_eq run_defs script_defs macro_defs Let_def)
  have 6: "find (\<lambda>x. request_size 100 \<le> GET_SIZE (mem heapF) (HDRP x)) [0x10120, 0x10020, 0x10220]
      = Some 0x10120"
    by (simp add: r heapF_def heapE_def heapA_eq run_defs script_defs macro_defs Let_def)
  have 7: "find (\<lambda>x. request_size 200 \<le> GET_SIZE (mem heapF) (HDRP x)) [0x10120, 0x10020, 0x10220]
      = Some 0x10220"
    by (simp add: r heapF_def heapE_def heapA_eq run_defs script_defs macro_defs Let_def)
  have 8: "EFL heapB [0x100A0, 0x10220]" by (rule EFL_heapB)
  have 9: "find (\<lambda>x. request_size 200 \<le> GET_SIZE (mem heapB) (HDRP x)) [0x100A0, 0x10220]
      = Some 0x10220"
    by (simp add: r heapB_eq macro_defs)
  from mm_malloc_first_fit [OF 1 2(1) 3(1), of script_provider] 6
  have a: "mm_malloc script_provider 100 heapF
      = Some (0x10120, setAllocated 0x10120 (request_size 100) heapF)"
    by blast
  from mm_malloc_first_fit [OF 1 2(2) 3(2), of script_provider] 7
  have b: "mm_malloc script_provider 200 heapF
      = Some (0x10220, setAllocated 0x10220 (request_size 200) heapF)"
    by blast
  from mm_malloc_first_fit [OF 8 2(2) 3(2), of script_provider] 9
  have c: "mm_malloc script_provider 200 heapB
      = Some (0x10220, setAllocated 0x10220 (request_size 200) heapB)"
    by blast
  show ?thesis using 1 2 3 4 5 6 7 8 9 a b c by blast
qed

subsection \<open>C3: the four cases of coalesce\<close>

text \<open>
  Claim C3 lists the four cases of \<open>coalesce\<close> and concludes that after release returns the
  freed block is in the free list exactly once. When the merged block is all of a
  region that is not the primordial one, release removes it from the free list and
  unmaps the region: after the release of the block at \<open>0x20020\<close> in the run with a second
  region, the free list is empty and the region at \<open>0x20000\<close> is unmapped.
\<close>

theorem release_unmaps_freed_block:
  "mm_malloc script_provider 40900 heap2 = Some (0x10020, heap3)
   \<and> mm_malloc script_provider 64 heap3 = Some (0x20020, heap4)
   \<and> fst (coalesce 0x20020 (mark_free 0x20020 heap4)) = 0x20020
   \<and> EFL (mm_free script_provider 0x20020 heap4) []
   \<and> count_list [] (0x20020 :: 64 word) \<noteq> 1
   \<and> unmapped (prov (mm_free script_provider 0x20020 heap4)) = [(0x20000, 40960)]"
  apply (intro conjI)
  subgoal by (rule heap3_by_malloc)
  subgoal by (rule heap4_by_malloc)
  subgoal by (simp add: heap4_eq run_defs script_defs macro_defs Let_def)
  subgoal by (simp add: EFL_def heap4_eq run_defs script_defs macro_defs Let_def)
  subgoal by simp
  subgoal by (simp add: heap4_eq run_defs script_defs macro_defs Let_def)
  done

text \<open>
  C3 as amended: for every call of \<open>coalesce\<close> on a just-freed block \<open>bp\<close> with predecessor
  \<open>P\<close> and successor \<open>N\<close>, in a heap that satisfies the invariants around the block
  (\<open>coalescible\<close>): if both neighbours are allocated, \<open>bp\<close> is pushed onto the free list and
  returned; if only \<open>N\<close> is free, \<open>N\<close> is removed from the list, the sizes merge, and \<open>bp\<close>
  is pushed and returned; if only \<open>P\<close> is free, the sizes merge into \<open>P\<close> and \<open>P\<close> is
  returned with the list unchanged; if both are free, only \<open>N\<close> is removed, all three
  merge, and \<open>P\<close> is returned. In every case the returned block is in the free list
  exactly once and the boundary tags on both sides of it (the footer before it and the
  header after it) are allocated, and this is the state in which release returns unless
  it unmaps the region of the block.
\<close>

theorem coalesce_four_cases:
  assumes pre: "coalescible s bp xs szP szb szN pa na"
  shows "(pa \<noteq> 0 \<and> na \<noteq> 0 \<longrightarrow>
            coalesce bp s = (bp, addEFLNode bp s)
          \<and> EFL (snd (coalesce bp s)) (bp # xs)
          \<and> GET_SIZE (mem (snd (coalesce bp s))) (HDRP bp) = szb)
       \<and> (pa \<noteq> 0 \<and> na = 0 \<longrightarrow>
            fst (coalesce bp s) = bp
          \<and> EFL (snd (coalesce bp s)) (bp # remove1 (bp + szb) xs)
          \<and> GET (mem (snd (coalesce bp s))) (HDRP bp) = PACK (szb + szN) 0
          \<and> GET (mem (snd (coalesce bp s))) (FTRP (mem (snd (coalesce bp s))) bp) = PACK (szb + szN) 0)
       \<and> (pa = 0 \<and> na \<noteq> 0 \<longrightarrow>
            fst (coalesce bp s) = bp - szP
          \<and> EFL (snd (coalesce bp s)) xs
          \<and> GET (mem (snd (coalesce bp s))) (HDRP (bp - szP)) = PACK (szb + szP) 0
          \<and> GET (mem (snd (coalesce bp s))) (FTRP (mem (snd (coalesce bp s))) (bp - szP))
              = PACK (szb + szP) 0)
       \<and> (pa = 0 \<and> na = 0 \<longrightarrow>
            fst (coalesce bp s) = bp - szP
          \<and> EFL (snd (coalesce bp s)) (remove1 (bp + szb) xs)
          \<and> GET (mem (snd (coalesce bp s))) (HDRP (bp - szP)) = PACK (szb + szP + szN) 0
          \<and> GET (mem (snd (coalesce bp s))) (FTRP (mem (snd (coalesce bp s))) (bp - szP))
              = PACK (szb + szP + szN) 0)
       \<and> EFL (snd (coalesce bp s))
            ((if pa \<noteq> 0 then [bp] else []) @ (if na = 0 then remove1 (bp + szb) xs else xs))
       \<and> count_list ((if pa \<noteq> 0 then [bp] else []) @ (if na = 0 then remove1 (bp + szb) xs else xs))
            (fst (coalesce bp s)) = 1
       \<and> GET_ALLOC (mem (snd (coalesce bp s))) (fst (coalesce bp s) - OVERHEAD) \<noteq> 0
       \<and> GET_ALLOC (mem (snd (coalesce bp s)))
            (HDRP (NEXT_BLKP (mem (snd (coalesce bp s))) (fst (coalesce bp s)))) \<noteq> 0
       \<and> (\<forall>P s0. mark_free bp s0 = s
            \<and> \<not> (GET_SIZE (mem (snd (coalesce bp s)))
                     (HDRP (PREV_BLKP (mem (snd (coalesce bp s))) (fst (coalesce bp s)))) = OVERHEAD
                 \<and> GET_SIZE (mem (snd (coalesce bp s)))
                     (HDRP (NEXT_BLKP (mem (snd (coalesce bp s))) (fst (coalesce bp s)))) = 0
                 \<and> fst (coalesce bp s) - 2 * OVERHEAD \<noteq> basePage (snd (coalesce bp s)))
            \<longrightarrow> mm_free P bp s0 = snd (coalesce bp s))"
proof -
  let ?s' = "snd (coalesce bp s)"
  let ?r = "fst (coalesce bp s)"
  note z = coalescible_sizes [OF pre]
  from pre have efl: "EFL s xs" and nin: "bp \<notin> set xs"
    by (simp_all add: coalescible_def)
  have d: "distinct xs" using efl by (rule EFL_distinct)
  have free: "mm_free P bp s0 = ?s'"
    if "mark_free bp s0 = s"
      "\<not> (GET_SIZE (mem ?s') (HDRP (PREV_BLKP (mem ?s') ?r)) = OVERHEAD
          \<and> GET_SIZE (mem ?s') (HDRP (NEXT_BLKP (mem ?s') ?r)) = 0
          \<and> ?r - 2 * OVERHEAD \<noteq> basePage ?s')" for P s0
    using that(2) unfolding that(1) [symmetric] by (rule mm_free_no_unmap)
  consider (c1) "pa \<noteq> 0" "na \<noteq> 0" | (c2) "pa \<noteq> 0" "na = 0"
    | (c3) "pa = 0" "na \<noteq> 0" | (c4) "pa = 0" "na = 0" by blast
  then show ?thesis
  proof cases
    case c1
    note r = coalesce_case1 [OF pre c1]
    have nb: "NEXT_BLKP (mem ?s') bp = NEXT_BLKP (mem (addEFLNode bp s)) bp" by (simp add: r(1))
    show ?thesis
      using c1 r nin free by (simp add: GET_def)
  next
    case c2
    note r = coalesce_case2 [OF pre c2]
    have asz: "aligned (szb + szN)" using z(2,3) by (rule aligned_add)
    have gs: "GET_SIZE (mem ?s') (HDRP bp) = szb + szN"
      using asz r(3) by (rule GET_SIZE_PACK0)
    have ft: "FTRP (mem ?s') bp = bp + szb + szN - 16"
      by (simp add: FTRP_def gs OVERHEAD_def)
    have nb: "NEXT_BLKP (mem ?s') bp = bp + szb + szN"
      by (simp add: NEXT_BLKP_def gs)
    have "bp \<notin> set (remove1 (bp + szb) xs)" using nin by (auto dest: notin_set_remove1)
    then have "count_list (remove1 (bp + szb) xs) bp = 0"
      by (rule count_list_0_iff [THEN iffD2])
    then have cnt: "count_list (bp # remove1 (bp + szb) xs) bp = 1"
      by (simp only: count_list.simps) simp
    show ?thesis
      using c2 r free cnt by (simp only: GET_def ft nb) simp
  next
    case c3
    note r = coalesce_case3 [OF pre c3]
    from pre c3 have P: "bp - szP \<in> set xs" by (simp add: coalescible_def)
    have asz: "aligned (szb + szP)" using z(2,1) by (rule aligned_add)
    have gs: "GET_SIZE (mem ?s') (HDRP (bp - szP)) = szb + szP"
      using asz r(3) by (rule GET_SIZE_PACK0)
    have ft: "FTRP (mem ?s') (bp - szP) = bp + szb - 16"
      by (simp add: FTRP_def gs OVERHEAD_def)
    have nb: "NEXT_BLKP (mem ?s') (bp - szP) = bp + szb"
      by (simp add: NEXT_BLKP_def gs)
    show ?thesis
      using c3 r free count_list_distinct [OF d P] by (simp add: GET_def ft nb)
  next
    case c4
    note r = coalesce_case4 [OF pre c4]
    have asz: "aligned (szb + szP + szN)" using z(1,2,3) by (simp add: aligned_add)
    have gs: "GET_SIZE (mem ?s') (HDRP (bp - szP)) = szb + szP + szN"
      using asz r(4) by (rule GET_SIZE_PACK0)
    have ft: "FTRP (mem ?s') (bp - szP) = bp + szb + szN - 16"
      by (simp add: FTRP_def gs OVERHEAD_def)
    have nb: "NEXT_BLKP (mem ?s') (bp - szP) = bp + szb + szN"
      by (simp add: NEXT_BLKP_def gs)
    have d': "distinct (remove1 (bp + szb) xs)" using d by simp
    show ?thesis
      using c4 r free count_list_distinct [OF d' r(3)] by (simp add: GET_def ft nb)
  qed
qed

theorem coalesce_four_cases_witness:
  "coalescible (mark_free 0x100A0 heapA) 0x100A0 [0x10220] 128 128 128 1 1
   \<and> coalesce 0x100A0 (mark_free 0x100A0 heapA)
       = (0x100A0, addEFLNode 0x100A0 (mark_free 0x100A0 heapA))
   \<and> EFL heapB [0x100A0, 0x10220]
   \<and> coalescible (mark_free 0x10120 heapB) 0x10120 [0x100A0, 0x10220] 128 128 128 0 1
   \<and> fst (coalesce 0x10120 (mark_free 0x10120 heapB)) = 0x100A0
   \<and> EFL heapC [0x100A0, 0x10220]
   \<and> GET (mem heapC) (HDRP 0x100A0) = PACK 256 0
   \<and> coalescible (mark_free 0x10020 heapC) 0x10020 [0x100A0, 0x10220] 16 128 256 1 0
   \<and> fst (coalesce 0x10020 (mark_free 0x10020 heapC)) = 0x10020
   \<and> EFL heapD [0x10020, 0x10220]
   \<and> GET (mem heapD) (HDRP 0x10020) = PACK 384 0
   \<and> coalescible (mark_free 0x101A0 heapD) 0x101A0 [0x10020, 0x10220] 384 128 40416 0 0
   \<and> fst (coalesce 0x101A0 (mark_free 0x101A0 heapD)) = 0x10020
   \<and> EFL (mm_free script_provider 0x101A0 heapD) [0x10020]
   \<and> GET (mem (mm_free script_provider 0x101A0 heapD)) (HDRP 0x10020) = PACK 40928 0"
proof -
  have p1: "coalescible (mark_free 0x100A0 heapA) 0x100A0 [0x10220] 128 128 128 1 1"
    by (simp add: heap_defs heapA_eq mark_free_def macro_defs Let_def)
  have p2: "coalescible (mark_free 0x10120 heapB) 0x10120 [0x100A0, 0x10220] 128 128 128 0 1"
    by (simp add: heap_defs heapB_eq mark_free_def macro_defs Let_def)
  have p3: "coalescible (mark_free 0x10020 heapC) 0x10020 [0x100A0, 0x10220] 16 128 256 1 0"
    by (simp add: heap_defs heapC_eq mark_free_def macro_defs Let_def)
  have p4: "coalescible (mark_free 0x101A0 heapD) 0x101A0 [0x10020, 0x10220] 384 128 40416 0 0"
    by (simp add: heap_defs heapD_eq mark_free_def macro_defs Let_def)
  have f1: "heapB = snd (coalesce 0x100A0 (mark_free 0x100A0 heapA))"
    by (simp add: heapB_def heapA_eq run_defs script_defs macro_defs Let_def)
  have f2: "heapC = snd (coalesce 0x10120 (mark_free 0x10120 heapB))"
    by (simp add: heapC_def heapB_eq run_defs script_defs macro_defs Let_def)
  have f3: "heapD = snd (coalesce 0x10020 (mark_free 0x10020 heapC))"
    by (simp add: heapD_def heapC_eq run_defs script_defs macro_defs Let_def)
  have f4: "mm_free script_provider 0x101A0 heapD = snd (coalesce 0x101A0 (mark_free 0x101A0 heapD))"
    by (simp add: heapD_eq run_defs script_defs macro_defs Let_def)
  note T1 = coalesce_four_cases [OF p1]
  note T2 = coalesce_four_cases [OF p2]
  note T3 = coalesce_four_cases [OF p3]
  note T4 = coalesce_four_cases [OF p4]
  have n: "(1 :: 64 word) \<noteq> 0" "(0 :: 64 word) = 0" by simp_all
  from T1 n have c1a: "coalesce 0x100A0 (mark_free 0x100A0 heapA)
       = (0x100A0, addEFLNode 0x100A0 (mark_free 0x100A0 heapA))"
    by blast
  from T1 n have "EFL (snd (coalesce 0x100A0 (mark_free 0x100A0 heapA))) (0x100A0 # [0x10220])"
    by blast
  then have c1b: "EFL heapB [0x100A0, 0x10220]"
    by (simp only: f1 [symmetric])
  from T2 n have c2a: "fst (coalesce 0x10120 (mark_free 0x10120 heapB)) = 0x10120 - 128"
    and "EFL (snd (coalesce 0x10120 (mark_free 0x10120 heapB))) [0x100A0, 0x10220]"
    and "GET (mem (snd (coalesce 0x10120 (mark_free 0x10120 heapB)))) (HDRP (0x10120 - 128))
         = PACK (128 + 128) 0"
    by blast+
  then have c2: "fst (coalesce 0x10120 (mark_free 0x10120 heapB)) = 0x100A0"
    "EFL heapC [0x100A0, 0x10220]" "GET (mem heapC) (HDRP 0x100A0) = PACK 256 0"
    by (simp_all add: f2 [symmetric])
  from T3 n have "fst (coalesce 0x10020 (mark_free 0x10020 heapC)) = 0x10020"
    and "EFL (snd (coalesce 0x10020 (mark_free 0x10020 heapC)))
           (0x10020 # remove1 (0x10020 + 128) [0x100A0, 0x10220])"
    and "GET (mem (snd (coalesce 0x10020 (mark_free 0x10020 heapC)))) (HDRP 0x10020)
         = PACK (128 + 256) 0"
    by blast+
  then have c3: "fst (coalesce 0x10020 (mark_free 0x10020 heapC)) = 0x10020"
    "EFL heapD [0x10020, 0x10220]" "GET (mem heapD) (HDRP 0x10020) = PACK 384 0"
    by (simp_all add: f3 [symmetric])
  from T4 n have "fst (coalesce 0x101A0 (mark_free 0x101A0 heapD)) = 0x101A0 - 384"
    and "EFL (snd (coalesce 0x101A0 (mark_free 0x101A0 heapD)))
           (remove1 (0x101A0 + 128) [0x10020, 0x10220])"
    and "GET (mem (snd (coalesce 0x101A0 (mark_free 0x101A0 heapD)))) (HDRP (0x101A0 - 384))
         = PACK (128 + 384 + 40416) 0"
    by blast+
  then have c4: "fst (coalesce 0x101A0 (mark_free 0x101A0 heapD)) = 0x10020"
    "EFL (mm_free script_provider 0x101A0 heapD) [0x10020]"
    "GET (mem (mm_free script_provider 0x101A0 heapD)) (HDRP 0x10020) = PACK 40928 0"
    by (simp_all add: f4)
  note c1 = c1a c1b
  show ?thesis
    using p1 p2 p3 p4 c1 c2 c3 c4 by blast
qed

subsection \<open>C5: release of the last block of a region\<close>

text \<open>
  Claim C5: a release whose coalesced block \<open>b'\<close> lies between the prologue and the
  epilogue of a region, the region being the \<open>bytes\<close> bytes from \<open>base\<close> on (so that \<open>b'\<close> is
  the payload right after the prologue and the epilogue word is the last word of the
  region). The region base is computed as \<open>b' - 2 * OVERHEAD\<close>. If it is the primordial
  region, release returns the state after coalescing and issues no \<open>unmap\<close>; otherwise \<open>b'\<close>
  is removed from the free list and the provider sees exactly one call
  \<open>unmap(base, size + PAGEOVERHEAD)\<close>, whose length is \<open>bytes\<close>, the mapped length.
\<close>

theorem mm_free_empty_region:
  assumes co: "coalesce bp (mark_free bp s) = (b', s1)"
    and pro: "GET_SIZE (mem s1) (HDRP (PREV_BLKP (mem s1) b')) = OVERHEAD"
    and epi: "GET_SIZE (mem s1) (HDRP (NEXT_BLKP (mem s1) b')) = 0"
    and first: "b' = base + PAGEOVERHEAD"
    and last: "HDRP (NEXT_BLKP (mem s1) b') = base + bytes - 8"
    and efl: "EFL s1 xs" and node: "b' \<in> set xs"
  shows "b' - 2 * OVERHEAD = base
    \<and> (base = basePage s \<longrightarrow> mm_free P bp s = s1 \<and> prov (mm_free P bp s) = prov s)
    \<and> (base \<noteq> basePage s \<longrightarrow>
          mm_free P bp s = (removeEFLNode b' s1)\<lparr>prov := mem_unmap P base bytes (prov s)\<rparr>
        \<and> GET_SIZE (mem s1) (HDRP b') + PAGEOVERHEAD = bytes
        \<and> prov (mm_free P bp s) = mem_unmap P base bytes (prov s)
        \<and> EFL (mm_free P bp s) (remove1 b' xs)
        \<and> b' \<notin> set (remove1 b' xs))"
proof -
  have base: "b' - 2 * OVERHEAD = base"
    using first by (simp add: PAGEOVERHEAD_def OVERHEAD_def)
  have p1: "prov s1 = prov s" and b1: "basePage s1 = basePage s"
    using coalesce_prov [of bp "mark_free bp s"] coalesce_basePage [of bp "mark_free bp s"] co
    by simp_all
  have len: "GET_SIZE (mem s1) (HDRP b') + PAGEOVERHEAD = bytes"
  proof -
    from last have "b' + GET_SIZE (mem s1) (HDRP b') - 8 = base + bytes - 8"
      by (simp add: NEXT_BLKP_def HDRP_def)
    then have "base + PAGEOVERHEAD + GET_SIZE (mem s1) (HDRP b') = base + bytes"
      unfolding first by simp
    then show ?thesis by (simp add: add.assoc add.commute)
  qed
  have d: "distinct xs" using efl by (rule EFL_distinct)
  show ?thesis
  proof (intro conjI impI)
    show "b' - 2 * OVERHEAD = base" by (rule base)
    show "mm_free P bp s = s1" if "base = basePage s"
      using that pro epi base b1 by (simp add: mm_free_def co Let_def)
    then show "prov (mm_free P bp s) = prov s" if "base = basePage s"
      using that p1 by simp
    assume ne: "base \<noteq> basePage s"
    show r: "mm_free P bp s = (removeEFLNode b' s1)\<lparr>prov := mem_unmap P base bytes (prov s)\<rparr>"
      using ne pro epi base b1 p1 len by (simp add: mm_free_def co Let_def)
    show "GET_SIZE (mem s1) (HDRP b') + PAGEOVERHEAD = bytes" by (rule len)
    show "prov (mm_free P bp s) = mem_unmap P base bytes (prov s)"
      by (simp add: r)
    have "EFL (removeEFLNode b' s1) (remove1 b' xs)"
      using efl node by (rule EFL_remove(1))
    then show "EFL (mm_free P bp s) (remove1 b' xs)"
      by (simp add: r EFL_def)
    show "b' \<notin> set (remove1 b' xs)" using d by simp
  qed
qed

theorem mm_free_empty_region_witness:
  "GET_SIZE (mem (snd (coalesce 0x20020 (mark_free 0x20020 heap4))))
      (HDRP (PREV_BLKP (mem (snd (coalesce 0x20020 (mark_free 0x20020 heap4)))) 0x20020)) = OVERHEAD
   \<and> GET_SIZE (mem (snd (coalesce 0x20020 (mark_free 0x20020 heap4))))
      (HDRP (NEXT_BLKP (mem (snd (coalesce 0x20020 (mark_free 0x20020 heap4)))) 0x20020)) = 0
   \<and> (0x20020 :: 64 word) = 0x20000 + PAGEOVERHEAD
   \<and> HDRP (NEXT_BLKP (mem (snd (coalesce 0x20020 (mark_free 0x20020 heap4)))) 0x20020)
       = 0x20000 + 40960 - 8
   \<and> EFL (snd (coalesce 0x20020 (mark_free 0x20020 heap4))) [0x20020]
   \<and> 0x20000 \<noteq> basePage heap4
   \<and> mapped (prov heap4) = [(0x10000, 40960), (0x20000, 40960)]
   \<and> unmapped (prov heap4) = []
   \<and> unmapped (prov (mm_free script_provider 0x20020 heap4)) = [(0x20000, 40960)]
   \<and> EFL (mm_free script_provider 0x20020 heap4) []
   \<and> GET_SIZE (mem (snd (coalesce 0x10020 (mark_free 0x10020 heap3))))
      (HDRP (PREV_BLKP (mem (snd (coalesce 0x10020 (mark_free 0x10020 heap3)))) 0x10020)) = OVERHEAD
   \<and> GET_SIZE (mem (snd (coalesce 0x10020 (mark_free 0x10020 heap3))))
      (HDRP (NEXT_BLKP (mem (snd (coalesce 0x10020 (mark_free 0x10020 heap3)))) 0x10020)) = 0
   \<and> EFL (snd (coalesce 0x10020 (mark_free 0x10020 heap3))) [0x10020]
   \<and> 0x10000 = basePage heap3
   \<and> mm_free script_provider 0x10020 heap3 = snd (coalesce 0x10020 (mark_free 0x10020 heap3))
   \<and> unmapped (prov (mm_free script_provider 0x10020 heap3)) = []"
proof -
  let ?s1 = "snd (coalesce 0x20020 (mark_free 0x20020 heap4))"
  have co: "coalesce 0x20020 (mark_free 0x20020 heap4) = (0x20020, ?s1)"
    by (simp add: heap4_eq run_defs macro_defs Let_def)
  have pro: "GET_SIZE (mem ?s1) (HDRP (PREV_BLKP (mem ?s1) 0x20020)) = OVERHEAD"
    by (simp add: heap4_eq run_defs macro_defs Let_def)
  have epi: "GET_SIZE (mem ?s1) (HDRP (NEXT_BLKP (mem ?s1) 0x20020)) = 0"
    by (simp add: heap4_eq run_defs macro_defs Let_def)
  have first: "(0x20020 :: 64 word) = 0x20000 + PAGEOVERHEAD"
    by (simp add: PAGEOVERHEAD_def)
  have last: "HDRP (NEXT_BLKP (mem ?s1) 0x20020) = 0x20000 + 40960 - 8"
    by (simp add: heap4_eq run_defs macro_defs Let_def)
  have efl: "EFL ?s1 [0x20020]"
    by (simp add: EFL_def aligned_def heap4_eq run_defs macro_defs Let_def)
  have node: "(0x20020 :: 64 word) \<in> set [0x20020]" by simp
  have ne: "0x20000 \<noteq> basePage heap4" by (simp add: heap4_eq)
  have pv: "mapped (prov heap4) = [(0x10000, 40960), (0x20000, 40960)]" "unmapped (prov heap4) = []"
    by (simp_all add: heap4_eq)
  note T = mm_free_empty_region [OF co pro epi first last efl node, of script_provider]
  from T ne have "prov (mm_free script_provider 0x20020 heap4)
      = mem_unmap script_provider 0x20000 40960 (prov heap4)"
    and e1: "EFL (mm_free script_provider 0x20020 heap4) (remove1 0x20020 [0x20020])"
    by blast+
  then have u1: "unmapped (prov (mm_free script_provider 0x20020 heap4)) = [(0x20000, 40960)]"
    by (simp add: pv script_defs)
  from e1 have e1': "EFL (mm_free script_provider 0x20020 heap4) []" by simp
  let ?s2 = "snd (coalesce 0x10020 (mark_free 0x10020 heap3))"
  have co2: "coalesce 0x10020 (mark_free 0x10020 heap3) = (0x10020, ?s2)"
    by (simp add: heap3_eq run_defs macro_defs Let_def)
  have pro2: "GET_SIZE (mem ?s2) (HDRP (PREV_BLKP (mem ?s2) 0x10020)) = OVERHEAD"
    by (simp add: heap3_eq run_defs macro_defs Let_def)
  have epi2: "GET_SIZE (mem ?s2) (HDRP (NEXT_BLKP (mem ?s2) 0x10020)) = 0"
    by (simp add: heap3_eq run_defs macro_defs Let_def)
  have first2: "(0x10020 :: 64 word) = 0x10000 + PAGEOVERHEAD"
    by (simp add: PAGEOVERHEAD_def)
  have last2: "HDRP (NEXT_BLKP (mem ?s2) 0x10020) = 0x10000 + 40960 - 8"
    by (simp add: heap3_eq run_defs macro_defs Let_def)
  have efl2: "EFL ?s2 [0x10020]"
    by (simp add: EFL_def aligned_def heap3_eq run_defs macro_defs Let_def)
  have node2: "(0x10020 :: 64 word) \<in> set [0x10020]" by simp
  have eq2: "0x10000 = basePage heap3" by (simp add: heap3_eq)
  note T2 = mm_free_empty_region [OF co2 pro2 epi2 first2 last2 efl2 node2, of script_provider]
  from T2 eq2 have r2: "mm_free script_provider 0x10020 heap3 = ?s2"
    and "prov (mm_free script_provider 0x10020 heap3) = prov heap3"
    by blast+
  then have u2: "unmapped (prov (mm_free script_provider 0x10020 heap3)) = []"
    by (simp add: heap3_eq)
  show ?thesis
    using pro epi first last efl ne pv u1 e1' pro2 epi2 efl2 eq2 r2 u2 by blast
qed

end
